theory Spec2Isabelle
  imports Main
begin

unbundle bit_operations_syntax

section \<open>Capabilities\<close>

text \<open>
  Modelled from the spec: the modules \<^verbatim>\<open>camel.capabilities.sources\<close>,
  \<^verbatim>\<open>camel.capabilities.readers\<close> and the \<^verbatim>\<open>Capabilities\<close> dataclass are
  imported by every source file but are not part of the sources at hand. Their shape
  follows sections 3.1 to 3.3 of the specification and the way the sources use them:
  a source is an enumerated constant or \<^verbatim>\<open>Tool(name, inner_sources)\<close>, where
  \<^verbatim>\<open>inner_sources\<close> is a frozenset of strings and enumerated constants
  (\<^verbatim>\<open>InnerSourcesSet\<close> in \<^verbatim>\<open>agentdojo_function.py\<close>); a reader set is
  \<^verbatim>\<open>Public()\<close> or a frozenset of identifiers.
\<close>

datatype SourceEnum = CaMeL | User | Assistant | TrustedToolSource

datatype InnerSource = InnerStr string | InnerEnum SourceEnum

datatype Source = Enum SourceEnum | Tool string "InnerSource set"

datatype Readers = Public | ReaderSet "string set"

text \<open>
  Modelled from the spec: the reader meet behind \<^verbatim>\<open>value_readers &= new_value_readers\<close>
  (section 3.2: \<^verbatim>\<open>Public & X = X\<close>, \<^verbatim>\<open>S1 & S2 = S1 \<inter> S2\<close>).
\<close>

fun readers_and :: "Readers \<Rightarrow> Readers \<Rightarrow> Readers" where
  "readers_and Public x = x"
| "readers_and x Public = x"
| "readers_and (ReaderSet s1) (ReaderSet s2) = ReaderSet (s1 \<inter> s2)"

record Capabilities =
  sources_set :: "Source set"
  readers_set :: Readers

text \<open>
  Modelled from the spec: \<^verbatim>\<open>Capabilities.camel()\<close> has sources \<^verbatim>\<open>{CaMeL}\<close> and readers
  \<^verbatim>\<open>Public\<close>; \<^verbatim>\<open>Capabilities.default()\<close> has no sources and readers \<^verbatim>\<open>Public\<close>
  (section 3.3).
\<close>

definition camel :: Capabilities where
  "camel = \<lparr>sources_set = {Enum CaMeL}, readers_set = Public\<rparr>"

definition default :: Capabilities where
  "default = \<lparr>sources_set = {}, readers_set = Public\<rparr>"

section \<open>Values\<close>

text \<open>
  Values of \<^verbatim>\<open>camel/interpreter/value.py\<close> are Python objects: they have an identity
  (\<^verbatim>\<open>id(value)\<close>), containers hold references to their elements, and lists and
  dictionaries are updated in place. A value is therefore an object in a heap, and a
  reference is an address. The heap is a list; the address of an object is its index.

  The constructor of \<open>camel_value\<close> is the class of the object and its argument is the
  field \<^verbatim>\<open>_python_value\<close>. The classes \<^verbatim>\<open>CaMeLClassInstance\<close> and \<^verbatim>\<open>CaMeLValueAsWrapper\<close>
  wrap instances of arbitrary Python classes and are not among the objects of the heap
  of this development.

  Python floats are not HOL numbers. The type \<open>pyfloat\<close> stands for them, and every
  operation of Python on them is a field of the record \<open>python\<close> below, about which
  nothing is assumed.
\<close>

type_synonym addr = nat

typedecl pyfloat

datatype pynum = PyInt int | PyFloat pyfloat

datatype camel_value =
    CaMeLNone
  | CaMeLTrue
  | CaMeLFalse
  | CaMeLInt pynum
  | CaMeLFloat pynum
  | CaMeLChar string
  | CaMeLStr "addr list"
  | CaMeLTuple "addr list"
  | CaMeLList "addr list"
  | CaMeLSet "addr list"
  | CaMeLDict "(addr \<times> addr) list"
  | CaMeLIterator nat "addr list"
  | CaMeLFunction string nat
  | CaMeLBuiltin string nat
  | CaMeLClass string nat "(string \<times> addr) list"

text \<open>
  \<open>CaMeLChar\<close> is the class \<^verbatim>\<open>_CaMeLChar\<close>. The payload of a set is the list of its
  elements in iteration order, that of a dictionary the list of its items in insertion
  order. An iterator carries the identity of the Python iterator and the elements it
  has not yet produced; a function or built-in carries its name and the identity of
  the Python callable; a class carries its name, the identity of the Python class and
  its methods.
\<close>

record obj =
  python_value :: camel_value
  metadata :: Capabilities
  dependencies :: "addr list"

type_synonym heap = "obj list"

datatype error =
    RecursionError
  | TypeError
  | ValueError
  | ZeroDivisionError
  | OverflowError
  | KeyError
  | IndexError
  | StopIteration
  | NotImplementedError
  | AttributeError
  | FunctionCallWithSideEffectError
  | UnallocatedAddress
  | OutsideModel

text \<open>
  \<open>UnallocatedAddress\<close> is not a Python exception: it is the result of following a
  reference that the heap does not hold, which no Python program can do. Nor is
  \<open>OutsideModel\<close>: it is the result where the sources go on with a value of a class
  that the heap of this development does not have.
  \<open>RecursionError\<close> is what Python raises when the call stack is exhausted; the
  recursive functions below take the number of frames that are left as their first
  argument.
\<close>

definition deref :: "heap \<Rightarrow> addr \<Rightarrow> obj option" where
  "deref h a = (if a < length h then Some (h ! a) else None)"

definition closed_heap :: "heap \<Rightarrow> bool" where
  "closed_heap h \<longleftrightarrow> (\<forall>ob \<in> set h.
     (\<forall>d \<in> set (dependencies ob). d < length h) \<and>
     (case python_value ob of
        CaMeLStr els \<Rightarrow> \<forall>e \<in> set els. e < length h
      | CaMeLTuple els \<Rightarrow> \<forall>e \<in> set els. e < length h
      | CaMeLList els \<Rightarrow> \<forall>e \<in> set els. e < length h
      | CaMeLSet els \<Rightarrow> \<forall>e \<in> set els. e < length h
      | CaMeLIterator i els \<Rightarrow> \<forall>e \<in> set els. e < length h
      | CaMeLDict its \<Rightarrow> \<forall>(k, v) \<in> set its. k < length h \<and> v < length h
      | CaMeLClass name i ms \<Rightarrow> \<forall>(k, m) \<in> set ms. m < length h
      | _ \<Rightarrow> True))"

subsection \<open>get_dependencies\<close>

text \<open>
  \<^verbatim>\<open>CaMeLValue.get_dependencies\<close> and its overrides in \<^verbatim>\<open>CaMeLIterable\<close> (strings, tuples,
  lists, sets), \<^verbatim>\<open>CaMeLMapping\<close> (dictionaries) and \<^verbatim>\<open>CaMeLClass\<close>. The \<^verbatim>\<open>for\<close> loops are
  the two auxiliary functions, which carry the loop variables \<^verbatim>\<open>dependencies\<close> and
  \<^verbatim>\<open>visited_objects\<close>; the loop over the methods of a class is that over the elements
  of a container.
\<close>

datatype base_class =
    CaMeLValue
  | CaMeLIterable "addr list"
  | CaMeLMapping "(addr \<times> addr) list"
  | CaMeLClassMethods "addr list"

text \<open>
  The class that an object has its \<^verbatim>\<open>get_dependencies\<close> from, with what the method
  iterates over: \<^verbatim>\<open>CaMeLValue\<close>, \<^verbatim>\<open>CaMeLIterable\<close> with the elements, \<^verbatim>\<open>CaMeLMapping\<close> with
  the items, or \<^verbatim>\<open>CaMeLClass\<close> with the methods of the class. The first three are also
  the classes that define \<^verbatim>\<open>eq\<close>.
\<close>

fun base_class_of :: "camel_value \<Rightarrow> base_class" where
  "base_class_of (CaMeLStr els) = CaMeLIterable els"
| "base_class_of (CaMeLTuple els) = CaMeLIterable els"
| "base_class_of (CaMeLList els) = CaMeLIterable els"
| "base_class_of (CaMeLSet els) = CaMeLIterable els"
| "base_class_of (CaMeLDict its) = CaMeLMapping its"
| "base_class_of (CaMeLClass name i ms) = CaMeLClassMethods (map snd ms)"
| "base_class_of _ = CaMeLValue"

text \<open>
  A heap in which every container, dictionary and class is built after its elements,
  items and methods, as a literal or the result of an operator is.
\<close>

definition elements_before :: "heap \<Rightarrow> bool" where
  "elements_before h \<longleftrightarrow> (\<forall>a < length h.
     (case base_class_of (python_value (h ! a)) of
        CaMeLValue \<Rightarrow> True
      | CaMeLIterable els \<Rightarrow> \<forall>e \<in> set els. e < a
      | CaMeLMapping its \<Rightarrow> \<forall>(k, v) \<in> set its. k < a \<and> v < a
      | CaMeLClassMethods ms \<Rightarrow> \<forall>m \<in> set ms. m < a))"

function (sequential) get_dependencies ::
    "nat \<Rightarrow> heap \<Rightarrow> addr \<Rightarrow> addr set \<Rightarrow> error + (addr list \<times> addr set)"
  and get_dependencies_elements ::
    "nat \<Rightarrow> heap \<Rightarrow> addr \<Rightarrow> addr list \<Rightarrow> addr list \<Rightarrow> addr set \<Rightarrow> error + (addr list \<times> addr set)"
  and get_dependencies_items ::
    "nat \<Rightarrow> heap \<Rightarrow> (addr \<times> addr) list \<Rightarrow> addr list \<Rightarrow> addr set \<Rightarrow> error + (addr list \<times> addr set)"
where
  "get_dependencies 0 h self visited_objects = Inl RecursionError"
| "get_dependencies (Suc n) h self visited_objects =
    (case deref h self of
       None \<Rightarrow> Inl UnallocatedAddress
     | Some ob \<Rightarrow>
        (case base_class_of (python_value ob) of
           CaMeLValue \<Rightarrow> Inr (dependencies ob, {self})
         | CaMeLIterable els \<Rightarrow>
             if self \<in> visited_objects then Inr (dependencies ob, visited_objects)
             else
              (case get_dependencies_elements n h self els (dependencies ob) visited_objects of
                 Inl e \<Rightarrow> Inl e
               | Inr (deps, visited) \<Rightarrow> Inr (deps, visited \<union> {self}))
         | CaMeLMapping its \<Rightarrow>
             if self \<in> visited_objects then Inr (dependencies ob, visited_objects)
             else get_dependencies_items n h its (dependencies ob) (visited_objects \<union> {self})
         | CaMeLClassMethods ms \<Rightarrow>
             if self \<in> visited_objects then Inr (dependencies ob, visited_objects)
             else get_dependencies_elements n h self ms (dependencies ob) visited_objects))"
| "get_dependencies_elements n h self [] deps visited_objects = Inr (deps, visited_objects)"
| "get_dependencies_elements n h self (el # els) deps visited_objects =
    (case get_dependencies n h el (visited_objects \<union> {self}) of
       Inl e \<Rightarrow> Inl e
     | Inr (new_dependencies, visited) \<Rightarrow>
         get_dependencies_elements n h self els (deps @ new_dependencies) visited)"
| "get_dependencies_items n h [] deps visited_objects = Inr (deps, visited_objects)"
| "get_dependencies_items n h ((k, v) # its) deps visited_objects =
    (case get_dependencies n h k visited_objects of
       Inl e \<Rightarrow> Inl e
     | Inr (k_dependencies, k_visited_objects) \<Rightarrow>
        (case get_dependencies n h v k_visited_objects of
           Inl e \<Rightarrow> Inl e
         | Inr (v_dependencies, v_visited_objects) \<Rightarrow>
             get_dependencies_items n h its (deps @ k_dependencies @ v_dependencies)
               v_visited_objects))"
  by pat_completeness auto
termination
  by (relation "inv_image (less_than <*lex*> less_than)
        (\<lambda>x. case x of
           Inl (n, h, self, visited) \<Rightarrow> (n, 0)
         | Inr (Inl (n, h, self, els, deps, visited)) \<Rightarrow> (n, Suc (length els))
         | Inr (Inr (n, h, its, deps, visited)) \<Rightarrow> (n, Suc (length its)))") auto


subsection \<open>The raw payload\<close>

text \<open>
  The property \<^verbatim>\<open>raw\<close> unwraps a value to a plain Python object. Containers are rebuilt
  (\<^verbatim>\<open>tuple(v.raw for v in self._python_value)\<close> and its kin), so the result shares no
  list, set or dictionary with the value. \<open>PySet\<close> and \<open>PyDict\<close> list the elements and
  items in the order in which they were inserted; \<open>PyObject\<close> is any other Python
  object, known by its identity only.
\<close>

datatype pyobj =
    PyNone
  | PyBool bool
  | PyNum pynum
  | PyStr string
  | PyTuple "pyobj list"
  | PyList "pyobj list"
  | PySet "pyobj list"
  | PyDict "(pyobj \<times> pyobj) list"
  | PyObject nat

text \<open>
  \<^verbatim>\<open>CaMeLStr.raw\<close> concatenates the payloads of the characters without calling their
  \<^verbatim>\<open>raw\<close>; the concatenation raises \<^verbatim>\<open>TypeError\<close> on a payload that is not a string.
\<close>

fun raw_str :: "heap \<Rightarrow> addr list \<Rightarrow> string \<Rightarrow> error + string" where
  "raw_str h [] s = Inr s"
| "raw_str h (c # cs) s =
    (case deref h c of
       None \<Rightarrow> Inl UnallocatedAddress
     | Some ob \<Rightarrow>
        (case python_value ob of
           CaMeLChar x \<Rightarrow> raw_str h cs (s @ x)
         | _ \<Rightarrow> Inl TypeError))"

function (sequential) raw :: "nat \<Rightarrow> heap \<Rightarrow> addr \<Rightarrow> error + pyobj"
  and raw_elements :: "nat \<Rightarrow> heap \<Rightarrow> addr list \<Rightarrow> error + pyobj list"
  and raw_items :: "nat \<Rightarrow> heap \<Rightarrow> (addr \<times> addr) list \<Rightarrow> error + (pyobj \<times> pyobj) list"
where
  "raw 0 h self = Inl RecursionError"
| "raw (Suc n) h self =
    (case deref h self of
       None \<Rightarrow> Inl UnallocatedAddress
     | Some ob \<Rightarrow>
        (case python_value ob of
           CaMeLNone \<Rightarrow> Inr PyNone
         | CaMeLTrue \<Rightarrow> Inr (PyBool True)
         | CaMeLFalse \<Rightarrow> Inr (PyBool False)
         | CaMeLInt x \<Rightarrow> Inr (PyNum x)
         | CaMeLFloat x \<Rightarrow> Inr (PyNum x)
         | CaMeLChar x \<Rightarrow> Inr (PyStr x)
         | CaMeLStr cs \<Rightarrow> (case raw_str h cs [] of Inl e \<Rightarrow> Inl e | Inr s \<Rightarrow> Inr (PyStr s))
         | CaMeLTuple els \<Rightarrow>
            (case raw_elements n h els of Inl e \<Rightarrow> Inl e | Inr rs \<Rightarrow> Inr (PyTuple rs))
         | CaMeLList els \<Rightarrow>
            (case raw_elements n h els of Inl e \<Rightarrow> Inl e | Inr rs \<Rightarrow> Inr (PyList rs))
         | CaMeLSet els \<Rightarrow>
            (case raw_elements n h els of Inl e \<Rightarrow> Inl e | Inr rs \<Rightarrow> Inr (PySet rs))
         | CaMeLDict its \<Rightarrow>
            (case raw_items n h its of Inl e \<Rightarrow> Inl e | Inr rs \<Rightarrow> Inr (PyDict rs))
         | CaMeLIterator i els \<Rightarrow> Inr (PyObject i)
         | CaMeLFunction name i \<Rightarrow> Inr (PyObject i)
         | CaMeLBuiltin name i \<Rightarrow> Inr (PyObject i)
         | CaMeLClass name i ms \<Rightarrow> Inr (PyObject i)))"
| "raw_elements n h [] = Inr []"
| "raw_elements n h (v # vs) =
    (case raw n h v of
       Inl e \<Rightarrow> Inl e
     | Inr r \<Rightarrow> (case raw_elements n h vs of Inl e \<Rightarrow> Inl e | Inr rs \<Rightarrow> Inr (r # rs)))"
| "raw_items n h [] = Inr []"
| "raw_items n h ((k, v) # its) =
    (case raw n h k of
       Inl e \<Rightarrow> Inl e
     | Inr rk \<Rightarrow>
        (case raw n h v of
           Inl e \<Rightarrow> Inl e
         | Inr rv \<Rightarrow>
            (case raw_items n h its of Inl e \<Rightarrow> Inl e | Inr rs \<Rightarrow> Inr ((rk, rv) # rs))))"
  by pat_completeness auto
termination
  by (relation "inv_image (less_than <*lex*> less_than)
        (\<lambda>x. case x of
           Inl (n, h, self) \<Rightarrow> (n, 0)
         | Inr (Inl (n, h, els)) \<Rightarrow> (n, Suc (length els))
         | Inr (Inr (n, h, its)) \<Rightarrow> (n, Suc (length its)))") auto

section \<open>Readers and sources of a value\<close>

text \<open>
  \<^verbatim>\<open>camel/capabilities/utils.py\<close>. In \<^verbatim>\<open>get_all_readers\<close> and \<^verbatim>\<open>get_all_sources\<close> the
  call \<^verbatim>\<open>value.get_dependencies()\<close> takes the default argument, the empty set.
\<close>

function (sequential) get_all_readers ::
    "nat \<Rightarrow> heap \<Rightarrow> addr \<Rightarrow> addr set \<Rightarrow> error + (Readers \<times> addr set)"
  and get_all_readers_loop ::
    "nat \<Rightarrow> heap \<Rightarrow> addr \<Rightarrow> addr list \<Rightarrow> Readers \<Rightarrow> addr set \<Rightarrow> error + (Readers \<times> addr set)"
where
  "get_all_readers 0 h v visited_objects = Inl RecursionError"
| "get_all_readers (Suc n) h v visited_objects =
    (case deref h v of
       None \<Rightarrow> Inl UnallocatedAddress
     | Some ob \<Rightarrow>
         if v \<in> visited_objects then Inr (readers_set (metadata ob), visited_objects)
         else
          (case get_dependencies n h v {} of
             Inl e \<Rightarrow> Inl e
           | Inr (deps, _) \<Rightarrow>
              (case get_all_readers_loop n h v deps (readers_set (metadata ob)) visited_objects of
                 Inl e \<Rightarrow> Inl e
               | Inr (value_readers, visited) \<Rightarrow> Inr (value_readers, visited \<union> {v}))))"
| "get_all_readers_loop n h v [] value_readers visited_objects =
    Inr (value_readers, visited_objects)"
| "get_all_readers_loop n h v (dependency # ds) value_readers visited_objects =
    (case get_all_readers n h dependency (visited_objects \<union> {v}) of
       Inl e \<Rightarrow> Inl e
     | Inr (new_value_readers, visited) \<Rightarrow>
         get_all_readers_loop n h v ds (readers_and value_readers new_value_readers) visited)"
  by pat_completeness auto
termination
  by (relation "inv_image (less_than <*lex*> less_than)
        (\<lambda>x. case x of
           Inl (n, h, v, visited) \<Rightarrow> (n, 0)
         | Inr (n, h, v, ds, r, visited) \<Rightarrow> (n, Suc (length ds)))") auto

definition is_public :: "nat \<Rightarrow> heap \<Rightarrow> addr \<Rightarrow> error + bool" where
  "is_public n h v =
    (case get_all_readers n h v {} of
       Inl e \<Rightarrow> Inl e
     | Inr (value_readers, _) \<Rightarrow> Inr (value_readers = Public))"

definition can_readers_read_value :: "nat \<Rightarrow> heap \<Rightarrow> string set \<Rightarrow> addr \<Rightarrow> error + bool" where
  "can_readers_read_value n h potential_readers v =
    (case get_all_readers n h v {} of
       Inl e \<Rightarrow> Inl e
     | Inr (value_readers, _) \<Rightarrow>
        (case value_readers of
           Public \<Rightarrow> Inr True
         | ReaderSet s \<Rightarrow> Inr (potential_readers \<subseteq> s)))"

function (sequential) get_all_sources ::
    "nat \<Rightarrow> heap \<Rightarrow> addr \<Rightarrow> addr set \<Rightarrow> error + (Source set \<times> addr set)"
  and get_all_sources_loop ::
    "nat \<Rightarrow> heap \<Rightarrow> addr \<Rightarrow> addr list \<Rightarrow> Source set \<Rightarrow> addr set \<Rightarrow> error + (Source set \<times> addr set)"
where
  "get_all_sources 0 h v visited_objects = Inl RecursionError"
| "get_all_sources (Suc n) h v visited_objects =
    (if v \<in> visited_objects then Inr ({}, visited_objects)
     else
      (case deref h v of
         None \<Rightarrow> Inl UnallocatedAddress
       | Some ob \<Rightarrow>
          (case get_dependencies n h v {} of
             Inl e \<Rightarrow> Inl e
           | Inr (deps, _) \<Rightarrow>
               get_all_sources_loop n h v deps (sources_set (metadata ob)) visited_objects)))"
| "get_all_sources_loop n h v [] value_sources visited_objects =
    Inr (value_sources, visited_objects)"
| "get_all_sources_loop n h v (dependency # ds) value_sources visited_objects =
    (case get_all_sources n h dependency (visited_objects \<union> {v}) of
       Inl e \<Rightarrow> Inl e
     | Inr (new_value_sources, visited) \<Rightarrow>
         get_all_sources_loop n h v ds (value_sources \<union> new_value_sources) visited)"
  by pat_completeness auto
termination
  by (relation "inv_image (less_than <*lex*> less_than)
        (\<lambda>x. case x of
           Inl (n, h, v, visited) \<Rightarrow> (n, 0)
         | Inr (n, h, v, ds, s, visited) \<Rightarrow> (n, Suc (length ds)))") auto

definition TRUSTED_SET :: "SourceEnum set" where
  "TRUSTED_SET = {User, CaMeL, Assistant, TrustedToolSource}"

text \<open>
  \<^verbatim>\<open>_source_is_trusted\<close>. A \<^verbatim>\<open>Tool\<close> is never a member of \<^verbatim>\<open>_TRUSTED_SET\<close>, and a
  string among the inner sources is never one either.
\<close>

fun source_is_trusted :: "Source \<Rightarrow> bool" where
  "source_is_trusted (Enum s) = (s \<in> TRUSTED_SET)"
| "source_is_trusted (Tool name inner_sources) =
    (\<not> (inner_sources = {}) \<and> inner_sources \<subseteq> InnerEnum ` TRUSTED_SET)"

text \<open>
  \<^verbatim>\<open>is_trusted\<close>; its second parameter \<^verbatim>\<open>trusted_set\<close> is bound and never read.
\<close>

definition is_trusted :: "nat \<Rightarrow> heap \<Rightarrow> addr \<Rightarrow> error + bool" where
  "is_trusted n h v =
    (case get_all_sources n h v {} of
       Inl e \<Rightarrow> Inl e
     | Inr (value_sources, _) \<Rightarrow> Inr (\<forall>source \<in> value_sources. source_is_trusted source))"


subsection \<open>The sources that the traversal is to collect\<close>

text \<open>
  \<^verbatim>\<open>get_all_sources\<close> follows, from a value, the values that \<^verbatim>\<open>value.get_dependencies()\<close>
  returns for it: for a container these are the values of its own field
  \<^verbatim>\<open>_dependencies\<close> and those that \<^verbatim>\<open>get_dependencies\<close> returns for its elements.
  \<open>dependency_edges\<close> is this relation and \<open>reachable_sources\<close> the union of the sources
  of all values that are reachable along it. It is stated without a traversal or a
  visited set, and is compared with \<open>get_all_sources\<close> below.
\<close>

definition dependency_edges :: "heap \<Rightarrow> (addr \<times> addr) set" where
  "dependency_edges h =
    {(a, d). \<exists>n deps visited. get_dependencies n h a {} = Inr (deps, visited) \<and> d \<in> set deps}"

definition own_sources :: "heap \<Rightarrow> addr \<Rightarrow> Source set" where
  "own_sources h w = (case deref h w of None \<Rightarrow> {} | Some ob \<Rightarrow> sources_set (metadata ob))"

definition reachable_sources :: "heap \<Rightarrow> addr \<Rightarrow> Source set" where
  "reachable_sources h v = (\<Union>w \<in> (dependency_edges h)\<^sup>* `` {v}. own_sources h w)"

text \<open>
  For the comparison: \<open>reaches h V a w\<close> holds when a path of dependencies leads from \<open>a\<close>
  to \<open>w\<close> and no value on it, the two ends included, is in \<open>V\<close>.
\<close>

definition avoiding :: "heap \<Rightarrow> addr set \<Rightarrow> (addr \<times> addr) set" where
  "avoiding h V = {(x, y). (x, y) \<in> dependency_edges h \<and> x \<notin> V \<and> y \<notin> V}"

definition reaches :: "heap \<Rightarrow> addr set \<Rightarrow> addr \<Rightarrow> addr \<Rightarrow> bool" where
  "reaches h V a w \<longleftrightarrow> a \<notin> V \<and> (a, w) \<in> (avoiding h V)\<^sup>*"

text \<open>
  What a call of \<open>get_all_sources\<close> on \<open>v\<close> with the visited set \<open>V\<close> guarantees for its
  result \<open>(S, V')\<close>: the visited set grows by values that \<open>v\<close> reaches outside of \<open>V\<close>, and
  \<open>S\<close> holds the sources of every value that \<open>v\<close> reaches outside of \<open>V\<close>, and sources of
  values that \<open>v\<close> reaches only.
\<close>

definition sources_post :: "heap \<Rightarrow> addr \<Rightarrow> addr set \<Rightarrow> Source set \<Rightarrow> addr set \<Rightarrow> bool" where
  "sources_post h v V S V' \<longleftrightarrow>
     V \<subseteq> V' \<and> (\<forall>x \<in> V' - V. reaches h V v x) \<and>
     (\<forall>w. reaches h V v w \<longrightarrow> own_sources h w \<subseteq> S) \<and> S \<subseteq> reachable_sources h v"

section \<open>The security policy engine\<close>

text \<open>
  \<^verbatim>\<open>camel/security_policy.py\<close>. The reason of the denial for private dependencies is an
  f-string over the tool name and the list \<^verbatim>\<open>non_public_variables\<close>; it is kept as these
  two parts. A policy is a Python callable and may raise. \<^verbatim>\<open>fnmatch.fnmatch\<close> belongs to
  the Python library and is a parameter of \<open>check_policy\<close>.
\<close>

datatype reason = Message string | PrivateValues string "pyobj list"

datatype SecurityPolicyResult = Allowed | Denied reason

type_synonym SecurityPolicy = "string \<Rightarrow> (string \<rightharpoonup> addr) \<Rightarrow> error + SecurityPolicyResult"

record SecurityPolicyEngine =
  policies :: "(string \<times> SecurityPolicy) list"
  no_side_effect_tools :: "string set"

text \<open>The comprehension \<^verbatim>\<open>[d.raw for d in dependencies if not is_public(d)]\<close>.\<close>

fun non_public_variables :: "nat \<Rightarrow> heap \<Rightarrow> addr list \<Rightarrow> error + pyobj list" where
  "non_public_variables n h [] = Inr []"
| "non_public_variables n h (d # ds) =
    (case is_public n h d of
       Inl e \<Rightarrow> Inl e
     | Inr True \<Rightarrow> non_public_variables n h ds
     | Inr False \<Rightarrow>
        (case raw n h d of
           Inl e \<Rightarrow> Inl e
         | Inr r \<Rightarrow>
            (case non_public_variables n h ds of Inl e \<Rightarrow> Inl e | Inr rs \<Rightarrow> Inr (r # rs))))"

text \<open>The loop \<^verbatim>\<open>for policy_name, policy in self.policies\<close> and the default denial after it.\<close>

fun walk_policies ::
  "(string \<Rightarrow> string \<Rightarrow> bool) \<Rightarrow> (string \<times> SecurityPolicy) list \<Rightarrow> string \<Rightarrow> (string \<rightharpoonup> addr)
    \<Rightarrow> error + SecurityPolicyResult" where
  "walk_policies fnmatch [] tool_name kwargs =
    Inr (Denied (Message ''No security policy matched for tool. Defaulting to denial.''))"
| "walk_policies fnmatch ((policy_name, policy) # ps) tool_name kwargs =
    (if fnmatch tool_name policy_name then policy tool_name kwargs
     else walk_policies fnmatch ps tool_name kwargs)"

definition check_policy ::
  "nat \<Rightarrow> (string \<Rightarrow> string \<Rightarrow> bool) \<Rightarrow> SecurityPolicyEngine \<Rightarrow> heap \<Rightarrow> string \<Rightarrow> (string \<rightharpoonup> addr)
    \<Rightarrow> addr list \<Rightarrow> error + SecurityPolicyResult" where
  "check_policy n fnmatch self h tool_name kwargs deps =
    (if tool_name \<in> no_side_effect_tools self then Inr Allowed
     else
      (case non_public_variables n h deps of
         Inl e \<Rightarrow> Inl e
       | Inr npv \<Rightarrow>
           if length npv > 0 then Inr (Denied (PrivateValues tool_name npv))
           else walk_policies fnmatch (policies self) tool_name kwargs))"

section \<open>Operators\<close>

text \<open>
  The operators of \<^verbatim>\<open>ast\<close> that the methods of the values implement. A method either
  returns a value, returns Python's \<^verbatim>\<open>NotImplemented\<close>, or raises.
\<close>

datatype unaryop = USub | UAdd | Invert | Not

datatype binop =
  Add | Sub | Mult | TrueDiv | FloorDiv | Mod | Pow | LShift | RShift | BitOr | BitXor | BitAnd

datatype op_result = Returns obj | NotImplemented | Raises error

text \<open>
  What Python itself computes and the sources only call: arithmetic and comparison
  where a float takes part, the truth value of a float, and the algebra of hashed
  containers (set difference, union, symmetric difference and intersection, and the
  merge of two dictionaries) over values, which hashes and compares them
  with \<^verbatim>\<open>__hash__\<close> and \<^verbatim>\<open>__eq__\<close>. They are parameters of the functions below. So is the
  call of a Python callable, known by its identity, on positional and keyword arguments:
  \<open>call_object\<close> gives what the callable returns or raises, and the arguments as the
  call leaves them, since a callable can update a list, a set or a dictionary that it is
  given.
\<close>

record python =
  float_binop :: "binop \<Rightarrow> pynum \<Rightarrow> pynum \<Rightarrow> error + pynum"
  float_unary :: "unaryop \<Rightarrow> pyfloat \<Rightarrow> error + pynum"
  float_eq :: "pynum \<Rightarrow> pynum \<Rightarrow> bool"
  float_truth :: "pyfloat \<Rightarrow> bool"
  set_binop :: "heap \<Rightarrow> binop \<Rightarrow> addr list \<Rightarrow> addr list \<Rightarrow> error + addr list"
  dict_or :: "heap \<Rightarrow> (addr \<times> addr) list \<Rightarrow> (addr \<times> addr) list \<Rightarrow> error + (addr \<times> addr) list"
  call_object :: "nat \<Rightarrow> pyobj list \<Rightarrow> (string \<times> pyobj) list
    \<Rightarrow> (error + pyobj) \<times> pyobj list \<times> (string \<times> pyobj) list"

subsection \<open>Python arithmetic on payloads\<close>

text \<open>
  \<^verbatim>\<open>self._python_value + other._python_value\<close> and its kin on two numbers. On two
  integers the result is exact, except for true division and for a negative exponent,
  whose result is a float.
\<close>

fun py_binop :: "python \<Rightarrow> binop \<Rightarrow> pynum \<Rightarrow> pynum \<Rightarrow> error + pynum" where
  "py_binop py Add (PyInt a) (PyInt b) = Inr (PyInt (a + b))"
| "py_binop py Sub (PyInt a) (PyInt b) = Inr (PyInt (a - b))"
| "py_binop py Mult (PyInt a) (PyInt b) = Inr (PyInt (a * b))"
| "py_binop py TrueDiv (PyInt a) (PyInt b) =
    (if b = 0 then Inl ZeroDivisionError else float_binop py TrueDiv (PyInt a) (PyInt b))"
| "py_binop py FloorDiv (PyInt a) (PyInt b) =
    (if b = 0 then Inl ZeroDivisionError else Inr (PyInt (a div b)))"
| "py_binop py Mod (PyInt a) (PyInt b) =
    (if b = 0 then Inl ZeroDivisionError else Inr (PyInt (a mod b)))"
| "py_binop py Pow (PyInt a) (PyInt b) =
    (if 0 \<le> b then Inr (PyInt (a ^ nat b)) else float_binop py Pow (PyInt a) (PyInt b))"
| "py_binop py LShift (PyInt a) (PyInt b) =
    (if b < 0 then Inl ValueError else Inr (PyInt (push_bit (nat b) a)))"
| "py_binop py RShift (PyInt a) (PyInt b) =
    (if b < 0 then Inl ValueError else Inr (PyInt (drop_bit (nat b) a)))"
| "py_binop py BitOr (PyInt a) (PyInt b) = Inr (PyInt (a OR b))"
| "py_binop py BitXor (PyInt a) (PyInt b) = Inr (PyInt (a XOR b))"
| "py_binop py BitAnd (PyInt a) (PyInt b) = Inr (PyInt (a AND b))"
| "py_binop py LShift x y = Inl TypeError"
| "py_binop py RShift x y = Inl TypeError"
| "py_binop py BitOr x y = Inl TypeError"
| "py_binop py BitXor x y = Inl TypeError"
| "py_binop py BitAnd x y = Inl TypeError"
| "py_binop py op x y = float_binop py op x y"

fun py_unary :: "python \<Rightarrow> unaryop \<Rightarrow> pynum \<Rightarrow> error + pynum" where
  "py_unary py USub (PyInt a) = Inr (PyInt (- a))"
| "py_unary py UAdd (PyInt a) = Inr (PyInt a)"
| "py_unary py Invert (PyInt a) = Inr (PyInt (NOT a))"
| "py_unary py Invert (PyFloat x) = Inl TypeError"
| "py_unary py Not x = Inl NotImplementedError"
| "py_unary py op (PyFloat x) = float_unary py op x"

text \<open>\<^verbatim>\<open>sequence * n\<close>: no copy for \<^verbatim>\<open>n \<le> 0\<close>, and a float is no count.\<close>

fun py_repeat :: "addr list \<Rightarrow> pynum \<Rightarrow> error + addr list" where
  "py_repeat xs (PyInt n) = Inr (concat (replicate (nat n) xs))"
| "py_repeat xs (PyFloat x) = Inl TypeError"

text \<open>\<^verbatim>\<open>bool(self._python_value)\<close>.\<close>

fun py_truth :: "python \<Rightarrow> camel_value \<Rightarrow> bool" where
  "py_truth py CaMeLNone = False"
| "py_truth py CaMeLTrue = True"
| "py_truth py CaMeLFalse = False"
| "py_truth py (CaMeLInt (PyInt a)) = (a \<noteq> 0)"
| "py_truth py (CaMeLInt (PyFloat x)) = float_truth py x"
| "py_truth py (CaMeLFloat (PyInt a)) = (a \<noteq> 0)"
| "py_truth py (CaMeLFloat (PyFloat x)) = float_truth py x"
| "py_truth py (CaMeLChar s) = (s \<noteq> [])"
| "py_truth py (CaMeLStr els) = (els \<noteq> [])"
| "py_truth py (CaMeLTuple els) = (els \<noteq> [])"
| "py_truth py (CaMeLList els) = (els \<noteq> [])"
| "py_truth py (CaMeLSet els) = (els \<noteq> [])"
| "py_truth py (CaMeLDict its) = (its \<noteq> [])"
| "py_truth py (CaMeLIterator i els) = True"
| "py_truth py (CaMeLFunction name i) = True"
| "py_truth py (CaMeLBuiltin name i) = True"
| "py_truth py (CaMeLClass name i ms) = True"

subsection \<open>Methods of \<^verbatim>\<open>CaMeLValue\<close>\<close>

definition new_with_dependencies :: "obj \<Rightarrow> addr list \<Rightarrow> obj" where
  "new_with_dependencies self deps = self\<lparr>dependencies := dependencies self @ deps\<rparr>"

definition new_with_metadata :: "obj \<Rightarrow> Capabilities \<Rightarrow> obj" where
  "new_with_metadata self m = self\<lparr>metadata := m\<rparr>"

definition new_with_python_value :: "obj \<Rightarrow> camel_value \<Rightarrow> obj" where
  "new_with_python_value self v = self\<lparr>python_value := v\<rparr>"

definition truth :: "python \<Rightarrow> heap \<Rightarrow> addr \<Rightarrow> op_result" where
  "truth py h self =
    (case deref h self of
       None \<Rightarrow> Raises UnallocatedAddress
     | Some ob \<Rightarrow>
         if py_truth py (python_value ob)
         then Returns \<lparr>python_value = CaMeLTrue, metadata = camel, dependencies = [self]\<rparr>
         else Returns \<lparr>python_value = CaMeLFalse, metadata = camel, dependencies = [self]\<rparr>)"

text \<open>The method \<^verbatim>\<open>not_\<close>.\<close>

definition not' :: "python \<Rightarrow> heap \<Rightarrow> addr \<Rightarrow> op_result" where
  "not' py h self =
    (case deref h self of
       None \<Rightarrow> Raises UnallocatedAddress
     | Some ob \<Rightarrow>
         if py_truth py (python_value ob)
         then Returns \<lparr>python_value = CaMeLFalse, metadata = camel, dependencies = [self]\<rparr>
         else Returns \<lparr>python_value = CaMeLTrue, metadata = camel, dependencies = [self]\<rparr>)"

subsection \<open>Unary operators\<close>

text \<open>
  \<^verbatim>\<open>CaMeLInt.unary\<close> and \<^verbatim>\<open>CaMeLFloat.unary\<close>; no other class has the method. The first
  gives its result the metadata and the dependencies of the operand, the second
  \<^verbatim>\<open>Capabilities.camel()\<close>.
\<close>

definition CaMeLInt_unary :: "python \<Rightarrow> unaryop \<Rightarrow> addr \<Rightarrow> obj \<Rightarrow> pynum \<Rightarrow> op_result" where
  "CaMeLInt_unary py op self ob x =
    (case op of
       Not \<Rightarrow> Raises NotImplementedError
     | _ \<Rightarrow>
        (case py_unary py op x of
           Inl e \<Rightarrow> Raises e
         | Inr r \<Rightarrow>
             Returns \<lparr>python_value = CaMeLInt r, metadata = metadata ob,
                      dependencies = self # dependencies ob\<rparr>))"

definition CaMeLFloat_unary :: "python \<Rightarrow> unaryop \<Rightarrow> addr \<Rightarrow> obj \<Rightarrow> pynum \<Rightarrow> op_result" where
  "CaMeLFloat_unary py op self ob x =
    (case op of
       Invert \<Rightarrow> Raises TypeError
     | Not \<Rightarrow> Raises NotImplementedError
     | _ \<Rightarrow>
        (case py_unary py op x of
           Inl e \<Rightarrow> Raises e
         | Inr r \<Rightarrow>
             Returns \<lparr>python_value = CaMeLFloat r, metadata = camel, dependencies = [self]\<rparr>))"

definition unary :: "python \<Rightarrow> heap \<Rightarrow> unaryop \<Rightarrow> addr \<Rightarrow> op_result" where
  "unary py h op self =
    (case deref h self of
       None \<Rightarrow> Raises UnallocatedAddress
     | Some ob \<Rightarrow>
        (case python_value ob of
           CaMeLInt x \<Rightarrow> CaMeLInt_unary py op self ob x
         | CaMeLFloat x \<Rightarrow> CaMeLFloat_unary py op self ob x
         | _ \<Rightarrow> Raises AttributeError))"

subsection \<open>Binary operators\<close>

text \<open>
  The methods \<^verbatim>\<open>add\<close>, \<^verbatim>\<open>sub\<close>, \<^verbatim>\<open>mult\<close>, \<^verbatim>\<open>truediv\<close>, \<^verbatim>\<open>floor_div\<close>, \<^verbatim>\<open>mod\<close>, \<^verbatim>\<open>pow\<close>,
  \<^verbatim>\<open>l_shift\<close>, \<^verbatim>\<open>r_shift\<close>, \<^verbatim>\<open>bit_or\<close>, \<^verbatim>\<open>bit_xor\<close>, \<^verbatim>\<open>bit_and\<close> and their reflected forms
  \<^verbatim>\<open>r_add\<close>, \<^verbatim>\<open>r_sub\<close> and so on. The methods of one class differ in the Python operator
  only, so each class has one function here, which takes the operator and whether the
  method is the reflected one; a method that the class does not have raises
  \<^verbatim>\<open>AttributeError\<close>.
\<close>

fun numeric_payload :: "camel_value \<Rightarrow> pynum option" where
  "numeric_payload (CaMeLFloat y) = Some y"
| "numeric_payload (CaMeLInt y) = Some y"
| "numeric_payload _ = None"

text \<open>
  \<^verbatim>\<open>CaMeLFloat\<close>: \<^verbatim>\<open>r_add\<close> adds in the order of \<^verbatim>\<open>add\<close>; the other reflected methods
  swap the operands.
\<close>

definition CaMeLFloat_binary ::
  "python \<Rightarrow> bool \<Rightarrow> binop \<Rightarrow> addr \<Rightarrow> pynum \<Rightarrow> addr \<Rightarrow> camel_value \<Rightarrow> op_result" where
  "CaMeLFloat_binary py reflected op self x other ov =
    (if op \<notin> {Add, Sub, Mult, TrueDiv, FloorDiv, Mod, Pow} then Raises AttributeError
     else
      (case numeric_payload ov of
         None \<Rightarrow> NotImplemented
       | Some y \<Rightarrow>
          (case (if reflected \<and> op \<noteq> Add then py_binop py op y x else py_binop py op x y) of
             Inl e \<Rightarrow> Raises e
           | Inr r \<Rightarrow>
               Returns \<lparr>python_value = CaMeLFloat r, metadata = camel,
                        dependencies = [self, other]\<rparr>)))"

text \<open>\<^verbatim>\<open>CaMeLInt\<close>: no reflected methods; \<^verbatim>\<open>truediv\<close> returns a \<^verbatim>\<open>CaMeLFloat\<close>.\<close>

definition CaMeLInt_binary ::
  "python \<Rightarrow> bool \<Rightarrow> binop \<Rightarrow> addr \<Rightarrow> pynum \<Rightarrow> addr \<Rightarrow> camel_value \<Rightarrow> op_result" where
  "CaMeLInt_binary py reflected op self x other ov =
    (if reflected then Raises AttributeError
     else
      (case ov of
         CaMeLInt y \<Rightarrow>
          (case py_binop py op x y of
             Inl e \<Rightarrow> Raises e
           | Inr r \<Rightarrow>
               Returns \<lparr>python_value = (if op = TrueDiv then CaMeLFloat r else CaMeLInt r),
                        metadata = camel, dependencies = [self, other]\<rparr>)
       | _ \<Rightarrow> NotImplemented))"

text \<open>
  \<^verbatim>\<open>CaMeLStr\<close>, \<^verbatim>\<open>CaMeLTuple\<close> and \<^verbatim>\<open>CaMeLList\<close>: \<^verbatim>\<open>add\<close> with a value of the same class,
  \<^verbatim>\<open>mult\<close> and \<^verbatim>\<open>r_mult = mult\<close> with a \<^verbatim>\<open>CaMeLInt\<close>. The first argument is the constructor
  of the class, the second tells whether a payload is of the class.
\<close>

definition sequence_binary ::
  "(addr list \<Rightarrow> camel_value) \<Rightarrow> (camel_value \<Rightarrow> addr list option) \<Rightarrow> bool \<Rightarrow> binop \<Rightarrow> addr
    \<Rightarrow> addr list \<Rightarrow> addr \<Rightarrow> camel_value \<Rightarrow> op_result" where
  "sequence_binary mk same_class reflected op self xs other ov =
    (if op = Add \<and> \<not> reflected then
       (case same_class ov of
          None \<Rightarrow> NotImplemented
        | Some ys \<Rightarrow>
            Returns \<lparr>python_value = mk (xs @ ys), metadata = camel, dependencies = [self, other]\<rparr>)
     else if op = Mult then
       (case ov of
          CaMeLInt k \<Rightarrow>
           (case py_repeat xs k of
              Inl e \<Rightarrow> Raises e
            | Inr r \<Rightarrow>
                Returns \<lparr>python_value = mk r, metadata = camel, dependencies = [self, other]\<rparr>)
        | _ \<Rightarrow> NotImplemented)
     else Raises AttributeError)"

fun str_payload :: "camel_value \<Rightarrow> addr list option" where
  "str_payload (CaMeLStr ys) = Some ys"
| "str_payload _ = None"

fun tuple_payload :: "camel_value \<Rightarrow> addr list option" where
  "tuple_payload (CaMeLTuple ys) = Some ys"
| "tuple_payload _ = None"

fun list_payload :: "camel_value \<Rightarrow> addr list option" where
  "list_payload (CaMeLList ys) = Some ys"
| "list_payload _ = None"

text \<open>
  \<^verbatim>\<open>CaMeLSet\<close>: \<^verbatim>\<open>sub\<close>, \<^verbatim>\<open>bit_or\<close>, \<^verbatim>\<open>bit_xor\<close> and \<^verbatim>\<open>bit_and\<close>; the last raises
  \<^verbatim>\<open>TypeError\<close> where the others return \<^verbatim>\<open>NotImplemented\<close>.
\<close>

definition CaMeLSet_binary ::
  "python \<Rightarrow> heap \<Rightarrow> bool \<Rightarrow> binop \<Rightarrow> addr \<Rightarrow> addr list \<Rightarrow> addr \<Rightarrow> camel_value \<Rightarrow> op_result" where
  "CaMeLSet_binary py h reflected op self xs other ov =
    (if reflected \<or> op \<notin> {Sub, BitOr, BitXor, BitAnd} then Raises AttributeError
     else
      (case ov of
         CaMeLSet ys \<Rightarrow>
          (case set_binop py h op xs ys of
             Inl e \<Rightarrow> Raises e
           | Inr r \<Rightarrow>
               Returns \<lparr>python_value = CaMeLSet r, metadata = camel,
                        dependencies = [self, other]\<rparr>)
       | _ \<Rightarrow> if op = BitAnd then Raises TypeError else NotImplemented))"

text \<open>\<^verbatim>\<open>CaMeLDict\<close>: \<^verbatim>\<open>bit_or\<close>.\<close>

definition CaMeLDict_binary ::
  "python \<Rightarrow> heap \<Rightarrow> bool \<Rightarrow> binop \<Rightarrow> addr \<Rightarrow> (addr \<times> addr) list \<Rightarrow> addr \<Rightarrow> camel_value
    \<Rightarrow> op_result" where
  "CaMeLDict_binary py h reflected op self xs other ov =
    (if reflected \<or> op \<noteq> BitOr then Raises AttributeError
     else
      (case ov of
         CaMeLDict ys \<Rightarrow>
          (case dict_or py h xs ys of
             Inl e \<Rightarrow> Raises e
           | Inr r \<Rightarrow>
               Returns \<lparr>python_value = CaMeLDict r, metadata = camel,
                        dependencies = [self, other]\<rparr>)
       | _ \<Rightarrow> NotImplemented))"

text \<open>The method of the class of \<open>self\<close>, applied to \<open>other\<close>.\<close>

definition binary :: "python \<Rightarrow> heap \<Rightarrow> bool \<Rightarrow> binop \<Rightarrow> addr \<Rightarrow> addr \<Rightarrow> op_result" where
  "binary py h reflected op self other =
    (case (deref h self, deref h other) of
       (Some ob, Some oo) \<Rightarrow>
        (case python_value ob of
           CaMeLFloat x \<Rightarrow> CaMeLFloat_binary py reflected op self x other (python_value oo)
         | CaMeLInt x \<Rightarrow> CaMeLInt_binary py reflected op self x other (python_value oo)
         | CaMeLStr xs \<Rightarrow>
             sequence_binary CaMeLStr str_payload reflected op self xs other (python_value oo)
         | CaMeLTuple xs \<Rightarrow>
             sequence_binary CaMeLTuple tuple_payload reflected op self xs other (python_value oo)
         | CaMeLList xs \<Rightarrow>
             sequence_binary CaMeLList list_payload reflected op self xs other (python_value oo)
         | CaMeLSet xs \<Rightarrow> CaMeLSet_binary py h reflected op self xs other (python_value oo)
         | CaMeLDict xs \<Rightarrow> CaMeLDict_binary py h reflected op self xs other (python_value oo)
         | _ \<Rightarrow> Raises AttributeError)
     | _ \<Rightarrow> Raises UnallocatedAddress)"

section \<open>Comparison, containment and access\<close>

subsection \<open>Equality\<close>

text \<open>
  \<^verbatim>\<open>CaMeLValue.eq\<close> compares the payloads with Python's \<^verbatim>\<open>==\<close>. It is the method of the
  classes that are no containers, whose payloads are \<^verbatim>\<open>None\<close>, Booleans, numbers,
  strings of one character, iterators, callables and classes: Booleans and numbers are
  compared as numbers, an iterator, a callable or a class is equal to itself only, and
  payloads of different kinds are not equal.
\<close>

fun as_number :: "camel_value \<Rightarrow> pynum option" where
  "as_number CaMeLTrue = Some (PyInt 1)"
| "as_number CaMeLFalse = Some (PyInt 0)"
| "as_number (CaMeLInt x) = Some x"
| "as_number (CaMeLFloat x) = Some x"
| "as_number _ = None"

fun num_eq :: "python \<Rightarrow> pynum \<Rightarrow> pynum \<Rightarrow> bool" where
  "num_eq py (PyInt a) (PyInt b) = (a = b)"
| "num_eq py x y = float_eq py x y"

fun payload_identity :: "camel_value \<Rightarrow> nat option" where
  "payload_identity (CaMeLIterator i els) = Some i"
| "payload_identity (CaMeLFunction name i) = Some i"
| "payload_identity (CaMeLBuiltin name i) = Some i"
| "payload_identity (CaMeLClass name i ms) = Some i"
| "payload_identity _ = None"

definition payload_eq :: "python \<Rightarrow> camel_value \<Rightarrow> camel_value \<Rightarrow> bool" where
  "payload_eq py u v =
    (case u of
       CaMeLNone \<Rightarrow> v = CaMeLNone
     | CaMeLChar s \<Rightarrow> v = CaMeLChar s
     | _ \<Rightarrow>
        (case as_number u of
           Some x \<Rightarrow> (case as_number v of Some y \<Rightarrow> num_eq py x y | None \<Rightarrow> False)
         | None \<Rightarrow>
            (case payload_identity u of
               Some i \<Rightarrow> payload_identity v = Some i
             | None \<Rightarrow> False)))"

definition CaMeLBool :: "bool \<Rightarrow> addr list \<Rightarrow> obj" where
  "CaMeLBool b deps =
    \<lparr>python_value = (if b then CaMeLTrue else CaMeLFalse), metadata = camel, dependencies = deps\<rparr>"

text \<open>\<^verbatim>\<open>isinstance(value, type(self))\<close> for a string, tuple, list or set \<open>self\<close>.\<close>

fun same_iterable :: "camel_value \<Rightarrow> camel_value \<Rightarrow> addr list option" where
  "same_iterable (CaMeLStr xs) (CaMeLStr ys) = Some ys"
| "same_iterable (CaMeLTuple xs) (CaMeLTuple ys) = Some ys"
| "same_iterable (CaMeLList xs) (CaMeLList ys) = Some ys"
| "same_iterable (CaMeLSet xs) (CaMeLSet ys) = Some ys"
| "same_iterable u v = None"

text \<open>
  \<^verbatim>\<open>eq\<close> with its overrides \<^verbatim>\<open>CaMeLIterable.eq\<close> and \<^verbatim>\<open>CaMeLMapping.eq\<close>. The loops run over
  \<^verbatim>\<open>zip\<close> of the two payloads, which ends with the shorter one.
\<close>

function (sequential) eq :: "nat \<Rightarrow> python \<Rightarrow> heap \<Rightarrow> addr \<Rightarrow> addr \<Rightarrow> error + obj"
  and eq_zip :: "nat \<Rightarrow> python \<Rightarrow> heap \<Rightarrow> addr list \<Rightarrow> addr list \<Rightarrow> error + bool"
  and eq_items ::
    "nat \<Rightarrow> python \<Rightarrow> heap \<Rightarrow> (addr \<times> addr) list \<Rightarrow> (addr \<times> addr) list \<Rightarrow> error + bool"
where
  "eq 0 py h self v = Inl RecursionError"
| "eq (Suc n) py h self v =
    (case (deref h self, deref h v) of
       (Some ob, Some vb) \<Rightarrow>
        (case base_class_of (python_value ob) of
           CaMeLValue \<Rightarrow> Inr (CaMeLBool (payload_eq py (python_value ob) (python_value vb)) [self, v])
         | CaMeLIterable xs \<Rightarrow>
            (case same_iterable (python_value ob) (python_value vb) of
               None \<Rightarrow> Inr (CaMeLBool False [self, v])
             | Some ys \<Rightarrow>
                (case eq_zip n py h xs ys of
                   Inl e \<Rightarrow> Inl e
                 | Inr b \<Rightarrow> Inr (CaMeLBool b [self, v])))
         | CaMeLMapping xs \<Rightarrow>
            (case python_value vb of
               CaMeLDict ys \<Rightarrow>
                (case eq_items n py h xs ys of
                   Inl e \<Rightarrow> Inl e
                 | Inr b \<Rightarrow> Inr (CaMeLBool b [self, v]))
             | _ \<Rightarrow> Inr (CaMeLBool False [self, v]))
         | CaMeLClassMethods ms \<Rightarrow>
             Inr (CaMeLBool (payload_eq py (python_value ob) (python_value vb)) [self, v]))
     | _ \<Rightarrow> Inl UnallocatedAddress)"
| "eq_zip n py h (self_c # xs) (value_c # ys) =
    (case eq n py h self_c value_c of
       Inl e \<Rightarrow> Inl e
     | Inr r \<Rightarrow> if python_value r = CaMeLTrue then eq_zip n py h xs ys else Inr False)"
| "eq_zip n py h xs ys = Inr True"
| "eq_items n py h ((self_k, self_v) # xs) ((value_k, value_v) # ys) =
    (case eq n py h self_k value_k of
       Inl e \<Rightarrow> Inl e
     | Inr rk \<Rightarrow>
         if python_value rk = CaMeLTrue then
          (case eq n py h self_v value_v of
             Inl e \<Rightarrow> Inl e
           | Inr rv \<Rightarrow> if python_value rv = CaMeLTrue then eq_items n py h xs ys else Inr False)
         else Inr False)"
| "eq_items n py h xs ys = Inr True"
  by pat_completeness auto
termination
  by (relation "inv_image (less_than <*lex*> less_than)
        (\<lambda>x. case x of
           Inl (n, py, h, self, v) \<Rightarrow> (n, 0)
         | Inr (Inl (n, py, h, xs, ys)) \<Rightarrow> (n, Suc (length xs))
         | Inr (Inr (n, py, h, xs, ys)) \<Rightarrow> (n, Suc (length xs)))") auto

subsection \<open>Containment\<close>

text \<open>
  The generator \<^verbatim>\<open>next((el for el in self.iterate_python() if el.eq(other)), None)\<close>: the
  first element whose comparison with \<open>other\<close> is true.
\<close>

fun first_equal :: "nat \<Rightarrow> python \<Rightarrow> heap \<Rightarrow> addr list \<Rightarrow> addr \<Rightarrow> error + addr option" where
  "first_equal n py h [] other = Inr None"
| "first_equal n py h (el # els) other =
    (case eq n py h el other of
       Inl e \<Rightarrow> Inl e
     | Inr r \<Rightarrow> if python_value r = CaMeLTrue then Inr (Some el) else first_equal n py h els other)"

text \<open>\<^verbatim>\<open>CaMeLIterable.contains\<close>, the method of tuples, lists and sets.\<close>

definition CaMeLIterable_contains ::
  "nat \<Rightarrow> python \<Rightarrow> heap \<Rightarrow> addr \<Rightarrow> addr list \<Rightarrow> addr \<Rightarrow> error + obj" where
  "CaMeLIterable_contains n py h self els other =
    (case first_equal n py h els other of
       Inl e \<Rightarrow> Inl e
     | Inr (Some inner_element) \<Rightarrow> Inr (CaMeLBool True [self, other, inner_element])
     | Inr None \<Rightarrow>
        (case get_dependencies n h self {} of
           Inl e \<Rightarrow> Inl e
         | Inr (deps, _) \<Rightarrow> Inr (CaMeLBool False (deps @ [other]))))"

text \<open>Python's \<^verbatim>\<open>in\<close> on two strings.\<close>

fun starts_with :: "string \<Rightarrow> string \<Rightarrow> bool" where
  "starts_with s [] = True"
| "starts_with [] (c # t) = False"
| "starts_with (d # s) (c # t) = (d = c \<and> starts_with s t)"

fun py_str_in :: "string \<Rightarrow> string \<Rightarrow> bool" where
  "py_str_in t [] = (t = [])"
| "py_str_in t (c # s) = (starts_with (c # s) t \<or> py_str_in t s)"

text \<open>
  \<^verbatim>\<open>CaMeLStr.contains\<close>: \<open>other\<close> has to be a string or a character, and the test is
  \<^verbatim>\<open>other.raw in self.raw\<close>.
\<close>

definition CaMeLStr_contains ::
  "nat \<Rightarrow> python \<Rightarrow> heap \<Rightarrow> addr \<Rightarrow> addr list \<Rightarrow> addr \<Rightarrow> error + obj" where
  "CaMeLStr_contains n py h self cs other =
    (case deref h other of
       None \<Rightarrow> Inl UnallocatedAddress
     | Some oo \<Rightarrow>
        (case (case python_value oo of
                 CaMeLStr os \<Rightarrow> raw_str h os []
               | CaMeLChar s \<Rightarrow> Inr s
               | _ \<Rightarrow> Inl TypeError) of
           Inl e \<Rightarrow> Inl e
         | Inr other_raw \<Rightarrow>
            (case raw_str h cs [] of
               Inl e \<Rightarrow> Inl e
             | Inr self_raw \<Rightarrow>
                 if py_str_in other_raw self_raw then
                  (case get_dependencies n h other {} of
                     Inl e \<Rightarrow> Inl e
                   | Inr (deps, _) \<Rightarrow> Inr (CaMeLBool True (self # deps)))
                 else
                  (case get_dependencies n h self {} of
                     Inl e \<Rightarrow> Inl e
                   | Inr (deps, _) \<Rightarrow> Inr (CaMeLBool False (deps @ [other]))))))"

text \<open>
  \<^verbatim>\<open>CaMeLMapping.contains\<close>: the keys are searched; when none is equal, the result
  depends on the dictionary, on \<open>other\<close> and on the dependencies of every key.
\<close>

fun keys_dependencies :: "nat \<Rightarrow> heap \<Rightarrow> addr list \<Rightarrow> error + addr list" where
  "keys_dependencies n h [] = Inr []"
| "keys_dependencies n h (k # ks) =
    (case get_dependencies n h k {} of
       Inl e \<Rightarrow> Inl e
     | Inr (deps, _) \<Rightarrow>
        (case keys_dependencies n h ks of Inl e \<Rightarrow> Inl e | Inr rest \<Rightarrow> Inr (deps @ rest)))"

definition CaMeLMapping_contains ::
  "nat \<Rightarrow> python \<Rightarrow> heap \<Rightarrow> addr \<Rightarrow> (addr \<times> addr) list \<Rightarrow> addr \<Rightarrow> error + obj" where
  "CaMeLMapping_contains n py h self its other =
    (case first_equal n py h (map fst its) other of
       Inl e \<Rightarrow> Inl e
     | Inr (Some inner_element) \<Rightarrow> Inr (CaMeLBool True [self, other, inner_element])
     | Inr None \<Rightarrow>
        (case keys_dependencies n h (map fst its) of
           Inl e \<Rightarrow> Inl e
         | Inr deps \<Rightarrow> Inr (CaMeLBool False ([self, other] @ deps))))"

text \<open>\<^verbatim>\<open>other in self\<close>, by the class of \<open>self\<close>.\<close>

definition contains :: "nat \<Rightarrow> python \<Rightarrow> heap \<Rightarrow> addr \<Rightarrow> addr \<Rightarrow> error + obj" where
  "contains n py h self other =
    (case deref h self of
       None \<Rightarrow> Inl UnallocatedAddress
     | Some ob \<Rightarrow>
        (case python_value ob of
           CaMeLStr cs \<Rightarrow> CaMeLStr_contains n py h self cs other
         | CaMeLTuple els \<Rightarrow> CaMeLIterable_contains n py h self els other
         | CaMeLList els \<Rightarrow> CaMeLIterable_contains n py h self els other
         | CaMeLSet els \<Rightarrow> CaMeLIterable_contains n py h self els other
         | CaMeLDict its \<Rightarrow> CaMeLMapping_contains n py h self its other
         | _ \<Rightarrow> Inl AttributeError))"

subsection \<open>Subscripts, length and iteration\<close>

text \<open>
  A Python subscript: a negative index counts from the end, a Boolean is an integer,
  an index out of range raises \<^verbatim>\<open>IndexError\<close>.
\<close>

fun py_index_value :: "camel_value \<Rightarrow> int option" where
  "py_index_value (CaMeLInt (PyInt i)) = Some i"
| "py_index_value (CaMeLFloat (PyInt i)) = Some i"
| "py_index_value CaMeLTrue = Some 1"
| "py_index_value CaMeLFalse = Some 0"
| "py_index_value _ = None"

definition py_subscript :: "nat \<Rightarrow> camel_value \<Rightarrow> error + nat" where
  "py_subscript len iv =
    (case py_index_value iv of
       None \<Rightarrow> Inl TypeError
     | Some i \<Rightarrow>
        (let j = (if i < 0 then i + int len else i) in
         if 0 \<le> j \<and> j < int len then Inr (nat j) else Inl IndexError))"

fun sequence_payload :: "camel_value \<Rightarrow> addr list option" where
  "sequence_payload (CaMeLStr els) = Some els"
| "sequence_payload (CaMeLTuple els) = Some els"
| "sequence_payload (CaMeLList els) = Some els"
| "sequence_payload _ = None"

text \<open>
  \<^verbatim>\<open>CaMeLSequence.index\<close>: a copy of the element, which depends on the sequence and
  on the index as well.
\<close>

definition index :: "heap \<Rightarrow> addr \<Rightarrow> addr \<Rightarrow> error + obj" where
  "index h self i =
    (case (deref h self, deref h i) of
       (Some ob, Some iob) \<Rightarrow>
        (case sequence_payload (python_value ob) of
           None \<Rightarrow> Inl AttributeError
         | Some els \<Rightarrow>
            (case py_subscript (length els) (python_value iob) of
               Inl e \<Rightarrow> Inl e
             | Inr j \<Rightarrow>
                (case deref h (els ! j) of
                   None \<Rightarrow> Inl UnallocatedAddress
                 | Some el \<Rightarrow> Inr (new_with_dependencies el [self, i]))))
     | _ \<Rightarrow> Inl UnallocatedAddress)"

text \<open>\<^verbatim>\<open>CaMeLSequence.len\<close>.\<close>

definition len :: "heap \<Rightarrow> addr \<Rightarrow> error + obj" where
  "len h self =
    (case deref h self of
       None \<Rightarrow> Inl UnallocatedAddress
     | Some ob \<Rightarrow>
        (case sequence_payload (python_value ob) of
           None \<Rightarrow> Inl AttributeError
         | Some els \<Rightarrow>
             Inr \<lparr>python_value = CaMeLInt (PyInt (int (length els))), metadata = camel,
                  dependencies = self # els\<rparr>))"

text \<open>
  \<^verbatim>\<open>iterate\<close> of \<^verbatim>\<open>CaMeLIterable\<close> and \<^verbatim>\<open>CaMeLMapping\<close>. The identity of the new Python iterator is
  an argument. The iterator is modelled by the elements that it has yet to produce,
  as they are when it is made.
\<close>

definition iterate :: "heap \<Rightarrow> addr \<Rightarrow> nat \<Rightarrow> error + obj" where
  "iterate h self i =
    (case deref h self of
       None \<Rightarrow> Inl UnallocatedAddress
     | Some ob \<Rightarrow>
        (case base_class_of (python_value ob) of
           CaMeLValue \<Rightarrow> Inl AttributeError
         | CaMeLIterable els \<Rightarrow>
             Inr \<lparr>python_value = CaMeLIterator i els, metadata = camel, dependencies = [self]\<rparr>
         | CaMeLMapping its \<Rightarrow>
             Inr \<lparr>python_value = CaMeLIterator i (map fst its), metadata = camel,
                  dependencies = [self]\<rparr>
         | CaMeLClassMethods ms \<Rightarrow> Inl AttributeError))"

text \<open>
  \<^verbatim>\<open>CaMeLIterator.next\<close> returns what the Python iterator produces: the element itself,
  not a copy of it. The iterator moves on.
\<close>

definition "next" :: "heap \<Rightarrow> addr \<Rightarrow> error + (heap \<times> addr)" where
  "next h self =
    (case deref h self of
       None \<Rightarrow> Inl UnallocatedAddress
     | Some ob \<Rightarrow>
        (case python_value ob of
           CaMeLIterator i [] \<Rightarrow> Inl StopIteration
         | CaMeLIterator i (el # els) \<Rightarrow>
             Inr (h[self := ob\<lparr>python_value := CaMeLIterator i els\<rparr>], el)
         | _ \<Rightarrow> Inl AttributeError))"

subsection \<open>Assignment to an index\<close>

text \<open>
  \<^verbatim>\<open>CaMeLMutableSequence.set_index\<close>, the only mutable sequence being the list:
  \<^verbatim>\<open>self._python_value[index.raw] = value\<close> updates the list in place. The result is a
  new \<^verbatim>\<open>CaMeLNone\<close>, returned with the updated heap. A copy of a list made by
  \<^verbatim>\<open>copy.copy\<close> would share the Python list with it; \<open>set_index\<close> is the assignment to a
  list that has no such copy in the heap.
\<close>

definition set_index :: "heap \<Rightarrow> addr \<Rightarrow> addr \<Rightarrow> addr \<Rightarrow> error + (heap \<times> obj)" where
  "set_index h self i v =
    (case (deref h self, deref h i) of
       (Some ob, Some iob) \<Rightarrow>
        (case python_value ob of
           CaMeLList els \<Rightarrow>
            (case py_subscript (length els) (python_value iob) of
               Inl e \<Rightarrow> Inl e
             | Inr j \<Rightarrow>
                 Inr (h[self := ob\<lparr>python_value := CaMeLList (els[j := v])\<rparr>],
                      \<lparr>python_value = CaMeLNone, metadata = camel, dependencies = [self, i]\<rparr>))
         | _ \<Rightarrow> Inl AttributeError)
     | _ \<Rightarrow> Inl UnallocatedAddress)"

section \<open>Calls\<close>

subsection \<open>Comparison of raw payloads\<close>

text \<open>
  Python's \<^verbatim>\<open>==\<close> on raw payloads: Booleans and numbers are compared as numbers, tuples
  and lists element by element, sets and dictionaries by their size and the membership
  of every element or item of the left one in the right one, any other object with
  itself only. The payloads carry no identity for a number: a float that is not a
  number is compared as \<open>float_eq\<close> does, also where Python would find the same object
  in two containers. \<^verbatim>\<open>!=\<close> is its negation.
\<close>

fun pyobj_number :: "pyobj \<Rightarrow> pynum option" where
  "pyobj_number (PyBool b) = Some (PyInt (if b then 1 else 0))"
| "pyobj_number (PyNum x) = Some x"
| "pyobj_number _ = None"

function (sequential) py_eq :: "python \<Rightarrow> pyobj \<Rightarrow> pyobj \<Rightarrow> bool"
  and py_eq_elements :: "python \<Rightarrow> pyobj list \<Rightarrow> pyobj list \<Rightarrow> bool"
  and py_in :: "python \<Rightarrow> pyobj \<Rightarrow> pyobj list \<Rightarrow> bool"
  and py_subset :: "python \<Rightarrow> pyobj list \<Rightarrow> pyobj list \<Rightarrow> bool"
  and py_item_in :: "python \<Rightarrow> pyobj \<Rightarrow> pyobj \<Rightarrow> (pyobj \<times> pyobj) list \<Rightarrow> bool"
  and py_items_subset :: "python \<Rightarrow> (pyobj \<times> pyobj) list \<Rightarrow> (pyobj \<times> pyobj) list \<Rightarrow> bool"
where
  "py_eq py PyNone y = (y = PyNone)"
| "py_eq py (PyStr s) y = (y = PyStr s)"
| "py_eq py (PyObject i) y = (y = PyObject i)"
| "py_eq py (PyBool b) y =
    (case pyobj_number y of None \<Rightarrow> False | Some n \<Rightarrow> num_eq py (PyInt (if b then 1 else 0)) n)"
| "py_eq py (PyNum x) y = (case pyobj_number y of None \<Rightarrow> False | Some n \<Rightarrow> num_eq py x n)"
| "py_eq py (PyTuple xs) (PyTuple ys) = py_eq_elements py xs ys"
| "py_eq py (PyList xs) (PyList ys) = py_eq_elements py xs ys"
| "py_eq py (PySet xs) (PySet ys) = (length xs = length ys \<and> py_subset py xs ys)"
| "py_eq py (PyDict xs) (PyDict ys) = (length xs = length ys \<and> py_items_subset py xs ys)"
| "py_eq py x y = False"
| "py_eq_elements py [] ys = (ys = [])"
| "py_eq_elements py (x # xs) [] = False"
| "py_eq_elements py (x # xs) (y # ys) = (py_eq py x y \<and> py_eq_elements py xs ys)"
| "py_in py x [] = False"
| "py_in py x (y # ys) = (py_eq py x y \<or> py_in py x ys)"
| "py_subset py [] ys = True"
| "py_subset py (x # xs) ys = (py_in py x ys \<and> py_subset py xs ys)"
| "py_item_in py k v [] = False"
| "py_item_in py k v ((k', v') # ys) = ((py_eq py k k' \<and> py_eq py v v') \<or> py_item_in py k v ys)"
| "py_items_subset py [] ys = True"
| "py_items_subset py ((k, v) # xs) ys = (py_item_in py k v ys \<and> py_items_subset py xs ys)"
  by pat_completeness auto
termination
  by (relation "inv_image (less_than <*lex*> less_than) (\<lambda>x. case x of
       Inl (Inl (py, x, y)) \<Rightarrow> (size x, 0)
     | Inl (Inr (Inl (py, xs, ys))) \<Rightarrow> (size_list size xs, 0)
     | Inl (Inr (Inr (py, x, ys))) \<Rightarrow> (size x, Suc (length ys))
     | Inr (Inl (py, xs, ys)) \<Rightarrow> (size_list size xs, 0)
     | Inr (Inr (Inl (py, k, v, ys))) \<Rightarrow> (size k + size v, Suc (length ys))
     | Inr (Inr (Inr (py, xs, ys))) \<Rightarrow> (size_list (size_prod size size) xs, 0))") auto

definition py_ne :: "python \<Rightarrow> pyobj \<Rightarrow> pyobj \<Rightarrow> bool" where
  "py_ne py x y \<longleftrightarrow> \<not> py_eq py x y"

subsection \<open>Wrapping a raw output\<close>

definition alloc :: "heap \<Rightarrow> obj \<Rightarrow> heap \<times> addr" where
  "alloc h ob = (h @ [ob], length h)"

text \<open>\<^verbatim>\<open>CaMeLStr.from_raw\<close>: one \<^verbatim>\<open>_CaMeLChar\<close> for each character, then the string.\<close>

fun from_raw_chars :: "heap \<Rightarrow> string \<Rightarrow> Capabilities \<Rightarrow> addr list \<Rightarrow> heap \<times> addr list" where
  "from_raw_chars h [] m deps = (h, [])"
| "from_raw_chars h (c # s) m deps =
    (let (h1, a) = alloc h \<lparr>python_value = CaMeLChar [c], metadata = m, dependencies = deps\<rparr>;
         (h2, cs) = from_raw_chars h1 s m deps
     in (h2, a # cs))"

definition from_raw :: "heap \<Rightarrow> string \<Rightarrow> Capabilities \<Rightarrow> addr list \<Rightarrow> heap \<times> addr" where
  "from_raw h s m deps =
    (let (h1, cs) = from_raw_chars h s m deps
     in alloc h1 \<lparr>python_value = CaMeLStr cs, metadata = m, dependencies = deps\<rparr>)"

text \<open>
  \<^verbatim>\<open>value_from_raw\<close>: the new values are put into the heap, the elements of a container
  before the container. A raw output that is a class, a callable or an instance of a
  class becomes a value of a class that the heap does not have.
\<close>

function (sequential) value_from_raw ::
    "heap \<Rightarrow> pyobj \<Rightarrow> Capabilities \<Rightarrow> addr list \<Rightarrow> error + (heap \<times> addr)"
  and value_from_raw_elements ::
    "heap \<Rightarrow> pyobj list \<Rightarrow> error + (heap \<times> addr list)"
  and value_from_raw_items ::
    "heap \<Rightarrow> (pyobj \<times> pyobj) list \<Rightarrow> Capabilities \<Rightarrow> error + (heap \<times> (addr \<times> addr) list)"
where
  "value_from_raw h (PyBool b) m deps =
    Inr (alloc h \<lparr>python_value = (if b then CaMeLTrue else CaMeLFalse), metadata = m,
                  dependencies = deps\<rparr>)"
| "value_from_raw h (PyNum (PyInt i)) m deps =
    Inr (alloc h \<lparr>python_value = CaMeLInt (PyInt i), metadata = m, dependencies = deps\<rparr>)"
| "value_from_raw h (PyStr s) m deps = Inr (from_raw h s m deps)"
| "value_from_raw h (PyNum (PyFloat x)) m deps =
    Inr (alloc h \<lparr>python_value = CaMeLFloat (PyFloat x), metadata = m, dependencies = deps\<rparr>)"
| "value_from_raw h PyNone m deps =
    Inr (alloc h \<lparr>python_value = CaMeLNone, metadata = m, dependencies = deps\<rparr>)"
| "value_from_raw h (PyList xs) m deps =
    (case value_from_raw_elements h xs of
       Inl e \<Rightarrow> Inl e
     | Inr (h1, els) \<Rightarrow>
         Inr (alloc h1 \<lparr>python_value = CaMeLList els, metadata = m, dependencies = deps\<rparr>))"
| "value_from_raw h (PyDict xs) m deps =
    (case value_from_raw_items h xs m of
       Inl e \<Rightarrow> Inl e
     | Inr (h1, its) \<Rightarrow>
         Inr (alloc h1 \<lparr>python_value = CaMeLDict its, metadata = m, dependencies = deps\<rparr>))"
| "value_from_raw h (PySet xs) m deps =
    (case value_from_raw_elements h xs of
       Inl e \<Rightarrow> Inl e
     | Inr (h1, els) \<Rightarrow>
         Inr (alloc h1 \<lparr>python_value = CaMeLSet els, metadata = m, dependencies = deps\<rparr>))"
| "value_from_raw h (PyTuple xs) m deps =
    (case value_from_raw_elements h xs of
       Inl e \<Rightarrow> Inl e
     | Inr (h1, els) \<Rightarrow>
         Inr (alloc h1 \<lparr>python_value = CaMeLTuple els, metadata = m, dependencies = deps\<rparr>))"
| "value_from_raw h (PyObject i) m deps = Inl OutsideModel"
| "value_from_raw_elements h [] = Inr (h, [])"
| "value_from_raw_elements h (x # xs) =
    (case value_from_raw h x camel [] of
       Inl e \<Rightarrow> Inl e
     | Inr (h1, a) \<Rightarrow>
        (case value_from_raw_elements h1 xs of
           Inl e \<Rightarrow> Inl e
         | Inr (h2, els) \<Rightarrow> Inr (h2, a # els)))"
| "value_from_raw_items h [] m = Inr (h, [])"
| "value_from_raw_items h ((k, v) # xs) m =
    (case value_from_raw h k camel [] of
       Inl e \<Rightarrow> Inl e
     | Inr (h1, ka) \<Rightarrow>
        (case value_from_raw h1 v m [] of
           Inl e \<Rightarrow> Inl e
         | Inr (h2, va) \<Rightarrow>
            (case value_from_raw_items h2 xs m of
               Inl e \<Rightarrow> Inl e
             | Inr (h3, its) \<Rightarrow> Inr (h3, (ka, va) # its))))"
  by pat_completeness auto
termination
  by (relation "measure (\<lambda>x. case x of
           Inl (h, r, m, deps) \<Rightarrow> size r
         | Inr (Inl (h, xs)) \<Rightarrow> size_list size xs
         | Inr (Inr (h, xs, m)) \<Rightarrow> size_list (size_prod size size) xs)") auto

text \<open>
  \<^verbatim>\<open>CaMeLCallable.wrap_output\<close>: the output has the source \<^verbatim>\<open>Tool(name)\<close>, whose inner
  sources are empty, is public, and depends on the callable and on the two containers
  of the arguments.
\<close>

definition wrap_output ::
  "heap \<Rightarrow> addr \<Rightarrow> string \<Rightarrow> pyobj \<Rightarrow> addr \<Rightarrow> addr \<Rightarrow> error + (heap \<times> addr)" where
  "wrap_output h self name v args kwargs =
    value_from_raw h v \<lparr>sources_set = {Tool name {}}, readers_set = Public\<rparr> [self, args, kwargs]"

subsection \<open>Arguments by keyword\<close>

text \<open>\<^verbatim>\<open>str(i)\<close> for an index.\<close>

fun str_of_nat :: "nat \<Rightarrow> string" where
  "str_of_nat n =
    (if n < 10 then [char_of (48 + n)] else str_of_nat (n div 10) @ [char_of (48 + n mod 10)])"

declare str_of_nat.simps [simp del]

text \<open>
  A Python dictionary with strings as keys, in insertion order: an assignment to a key
  that the dictionary has replaces the value where it is.
\<close>

fun dict_set :: "(string \<times> 'a) list \<Rightarrow> string \<Rightarrow> 'a \<Rightarrow> (string \<times> 'a) list" where
  "dict_set [] k v = [(k, v)]"
| "dict_set ((k', v') # d) k v = (if k' = k then (k, v) # d else (k', v') # dict_set d k v)"

fun enumerate_args :: "nat \<Rightarrow> addr list \<Rightarrow> (string \<times> addr) list \<Rightarrow> (string \<times> addr) list" where
  "enumerate_args i [] d = d"
| "enumerate_args i (arg # args) d = enumerate_args (Suc i) args (dict_set d (str_of_nat i) arg)"

text \<open>
  \<^verbatim>\<open>k.raw\<close> for a key \<open>k\<close> of the keyword arguments, which is a string: Python refuses a
  call with a keyword that is no string, so that no other key reaches this point in a
  call.
\<close>

definition keyword :: "nat \<Rightarrow> heap \<Rightarrow> addr \<Rightarrow> error + string" where
  "keyword n h k =
    (case raw n h k of Inl e \<Rightarrow> Inl e | Inr (PyStr s) \<Rightarrow> Inr s | Inr _ \<Rightarrow> Inl OutsideModel)"

fun keyword_args ::
  "nat \<Rightarrow> heap \<Rightarrow> (addr \<times> addr) list \<Rightarrow> (string \<times> addr) list
    \<Rightarrow> error + (string \<times> addr) list" where
  "keyword_args n h [] d = Inr d"
| "keyword_args n h ((k, v) # its) d =
    (case keyword n h k of Inl e \<Rightarrow> Inl e | Inr s \<Rightarrow> keyword_args n h its (dict_set d s v))"

text \<open>
  \<^verbatim>\<open>make_args_by_keyword_preserve_values\<close> of \<^verbatim>\<open>CaMeLFunction\<close>, \<^verbatim>\<open>CaMeLBuiltin\<close> and
  \<^verbatim>\<open>CaMeLClass\<close>: the positional arguments under their index, then the keyword arguments.
\<close>

definition make_args_by_keyword_preserve_values ::
  "nat \<Rightarrow> heap \<Rightarrow> addr \<Rightarrow> addr \<Rightarrow> error + (string \<times> addr) list" where
  "make_args_by_keyword_preserve_values n h args kwargs =
    (case (deref h args, deref h kwargs) of
       (Some ab, Some kb) \<Rightarrow>
        (case (python_value ab, python_value kb) of
           (CaMeLTuple pos, CaMeLDict its) \<Rightarrow> keyword_args n h its (enumerate_args 0 pos [])
         | _ \<Rightarrow> Inl OutsideModel)
     | _ \<Rightarrow> Inl UnallocatedAddress)"

fun raw_values :: "nat \<Rightarrow> heap \<Rightarrow> (string \<times> addr) list \<Rightarrow> error + (string \<times> pyobj) list" where
  "raw_values n h [] = Inr []"
| "raw_values n h ((k, v) # d) =
    (case raw n h v of
       Inl e \<Rightarrow> Inl e
     | Inr r \<Rightarrow> (case raw_values n h d of Inl e \<Rightarrow> Inl e | Inr rs \<Rightarrow> Inr ((k, r) # rs)))"

text \<open>\<^verbatim>\<open>_make_args_by_keyword\<close>.\<close>

definition make_args_by_keyword ::
  "nat \<Rightarrow> heap \<Rightarrow> addr \<Rightarrow> addr \<Rightarrow> error + (string \<times> pyobj) list" where
  "make_args_by_keyword n h args kwargs =
    (case make_args_by_keyword_preserve_values n h args kwargs of
       Inl e \<Rightarrow> Inl e
     | Inr d \<Rightarrow> raw_values n h d)"

subsection \<open>The call\<close>

text \<open>
  The arguments that \<^verbatim>\<open>f(*raw_args, **raw_kwargs)\<close> passes: the elements of the tuple
  and the items of the dictionary, whose keys have to be strings.
\<close>

fun keyword_items :: "(pyobj \<times> pyobj) list \<Rightarrow> (string \<times> pyobj) list option" where
  "keyword_items [] = Some []"
| "keyword_items ((PyStr k, v) # its) = map_option ((#) (k, v)) (keyword_items its)"
| "keyword_items _ = None"

definition unpack :: "pyobj \<Rightarrow> pyobj \<Rightarrow> error + (pyobj list \<times> (string \<times> pyobj) list)" where
  "unpack raw_args raw_kwargs =
    (case (raw_args, raw_kwargs) of
       (PyTuple pos, PyDict its) \<Rightarrow>
        (case keyword_items its of None \<Rightarrow> Inl TypeError | Some kw \<Rightarrow> Inr (pos, kw))
     | _ \<Rightarrow> Inl OutsideModel)"

definition repack :: "(string \<times> pyobj) list \<Rightarrow> pyobj" where
  "repack kw = PyDict (map (\<lambda>(k, v). (PyStr k, v)) kw)"

text \<open>
  The result of a call: a value that has been put into the heap, or an instance of a
  class, given by the arguments of the constructor \<^verbatim>\<open>CaMeLClassInstance\<close>.
\<close>

record CaMeLClassInstance =
  instance_value :: pyobj
  instance_class :: addr
  instance_metadata :: Capabilities
  instance_dependencies :: "addr list"

datatype call_output = Value heap addr | Instance CaMeLClassInstance

text \<open>
  \<^verbatim>\<open>CaMeLCallable.call\<close>, which \<^verbatim>\<open>CaMeLFunction\<close> and \<^verbatim>\<open>CaMeLBuiltin\<close> inherit. The raw
  arguments are captured and the Python callable runs on them; then the raw arguments
  are computed again and compared with the captured ones, which are by now as the
  callable has left them.
\<close>

definition CaMeLCallable_call ::
  "nat \<Rightarrow> python \<Rightarrow> heap \<Rightarrow> addr \<Rightarrow> string \<Rightarrow> nat \<Rightarrow> addr \<Rightarrow> addr
    \<Rightarrow> error + (call_output \<times> (string \<times> pyobj) list)" where
  "CaMeLCallable_call n py h self name f args kwargs =
    (case raw n h args of
       Inl e \<Rightarrow> Inl e
     | Inr raw_args \<Rightarrow>
    (case raw n h kwargs of
       Inl e \<Rightarrow> Inl e
     | Inr raw_kwargs \<Rightarrow>
    (case unpack raw_args raw_kwargs of
       Inl e \<Rightarrow> Inl e
     | Inr (pos, kw) \<Rightarrow>
    (case call_object py f pos kw of
       (Inl e, pos', kw') \<Rightarrow> Inl e
     | (Inr output, pos', kw') \<Rightarrow>
    (case raw n h args of
       Inl e \<Rightarrow> Inl e
     | Inr args_raw \<Rightarrow>
    (case raw n h kwargs of
       Inl e \<Rightarrow> Inl e
     | Inr kwargs_raw \<Rightarrow>
         if py_ne py args_raw (PyTuple pos') \<or> py_ne py kwargs_raw (repack kw')
         then Inl FunctionCallWithSideEffectError
         else
          (case wrap_output h self name output args kwargs of
             Inl e \<Rightarrow> Inl e
           | Inr (h', wrapped_output) \<Rightarrow>
              (case make_args_by_keyword n h args kwargs of
                 Inl e \<Rightarrow> Inl e
               | Inr args_by_keyword \<Rightarrow> Inr (Value h' wrapped_output, args_by_keyword)))))))))"

text \<open>
  \<^verbatim>\<open>CaMeLClass.call\<close> overrides it: the Python class is called on the raw arguments and
  the new instance depends on the class. The raw arguments are not kept and nothing is
  compared.
\<close>

definition CaMeLClass_call ::
  "nat \<Rightarrow> python \<Rightarrow> heap \<Rightarrow> addr \<Rightarrow> obj \<Rightarrow> nat \<Rightarrow> addr \<Rightarrow> addr
    \<Rightarrow> error + (call_output \<times> (string \<times> pyobj) list)" where
  "CaMeLClass_call n py h self ob c args kwargs =
    (case raw n h args of
       Inl e \<Rightarrow> Inl e
     | Inr raw_args \<Rightarrow>
    (case raw n h kwargs of
       Inl e \<Rightarrow> Inl e
     | Inr raw_kwargs \<Rightarrow>
    (case unpack raw_args raw_kwargs of
       Inl e \<Rightarrow> Inl e
     | Inr (pos, kw) \<Rightarrow>
    (case call_object py c pos kw of
       (Inl e, pos', kw') \<Rightarrow> Inl e
     | (Inr v, pos', kw') \<Rightarrow>
        (case make_args_by_keyword n h args kwargs of
           Inl e \<Rightarrow> Inl e
         | Inr args_by_keyword \<Rightarrow>
             Inr (Instance \<lparr>instance_value = v, instance_class = self,
                             instance_metadata = metadata ob, instance_dependencies = [self]\<rparr>,
                  args_by_keyword))))))"

text \<open>The method \<^verbatim>\<open>call\<close> of the class of \<open>self\<close>.\<close>

definition call ::
  "nat \<Rightarrow> python \<Rightarrow> heap \<Rightarrow> addr \<Rightarrow> addr \<Rightarrow> addr \<Rightarrow> error + (call_output \<times> (string \<times> pyobj) list)"
  where
  "call n py h self args kwargs =
    (case deref h self of
       None \<Rightarrow> Inl UnallocatedAddress
     | Some ob \<Rightarrow>
        (case python_value ob of
           CaMeLFunction name f \<Rightarrow> CaMeLCallable_call n py h self name f args kwargs
         | CaMeLBuiltin name f \<Rightarrow> CaMeLCallable_call n py h self name f args kwargs
         | CaMeLClass name c ms \<Rightarrow> CaMeLClass_call n py h self ob c args kwargs
         | _ \<Rightarrow> Inl AttributeError))"

section \<open>The dependency set of a value\<close>

text \<open>
  The values that a value transitively depends on, along the field \<^verbatim>\<open>_dependencies\<close>.
  \<open>dependency_set h deps\<close> is the set for a value whose field holds \<open>deps\<close>; the value
  itself need not be in the heap, as the result of an operator is not before it is
  bound.
\<close>

definition dependency_relation :: "heap \<Rightarrow> (addr \<times> addr) set" where
  "dependency_relation h = {(a, d). \<exists>ob. deref h a = Some ob \<and> d \<in> set (dependencies ob)}"

definition dependency_set :: "heap \<Rightarrow> addr list \<Rightarrow> addr set" where
  "dependency_set h deps = (dependency_relation h)\<^sup>* `` set deps"

text \<open>
  The source set of a value as the specification states it: the union of the sources
  over the value and its transitive dependencies, where the dependencies of a value are
  the values of its dependency list.
\<close>

definition spec_all_sources :: "heap \<Rightarrow> addr \<Rightarrow> Source set" where
  "spec_all_sources h v = (\<Union>w \<in> (dependency_relation h)\<^sup>* `` {v}. own_sources h w)"

text \<open>The dependency set of the result \<open>r\<close> of an operation includes that of its operand \<open>v\<close>.\<close>

definition keeps_dependencies :: "heap \<Rightarrow> obj \<Rightarrow> obj \<Rightarrow> bool" where
  "keeps_dependencies h v r \<longleftrightarrow>
     dependency_set h (dependencies v) \<subseteq> dependency_set h (dependencies r)"

section \<open>Namespaces\<close>

text \<open>
  \<^verbatim>\<open>camel/interpreter/namespace.py\<close>. A \<^verbatim>\<open>Namespace\<close> is a frozen dataclass with one
  field, a reference to a dictionary from names to values. \<^verbatim>\<open>set_variable\<close> updates
  that dictionary in place, so the dictionaries live in a store of their own (a list,
  the address of a dictionary being its index) and a namespace is the address of its
  dictionary. \<^verbatim>\<open>self.variables | variables\<close> builds a new dictionary, which
  \<^verbatim>\<open>dataclasses.replace\<close> puts into a new namespace.
\<close>

type_synonym bindings = "string \<rightharpoonup> addr"

type_synonym dict_store = "bindings list"

record Namespace =
  variables :: nat

definition add_variables :: "dict_store \<Rightarrow> Namespace \<Rightarrow> bindings \<Rightarrow> dict_store \<times> Namespace" where
  "add_variables st self vars = (st @ [(st ! variables self) ++ vars], \<lparr>variables = length st\<rparr>)"

definition set_variable :: "dict_store \<Rightarrow> Namespace \<Rightarrow> string \<Rightarrow> addr \<Rightarrow> dict_store" where
  "set_variable st self name v = st[variables self := (st ! variables self)(name \<mapsto> v)]"

definition get :: "dict_store \<Rightarrow> Namespace \<Rightarrow> string \<Rightarrow> addr option" where
  "get st self name = (st ! variables self) name"

section \<open>Example heaps\<close>

text \<open>
  A heap with a private value: object 0 is the integer 7, readable by \<open>alice\<close> only;
  object 1 is the integer 8, public; object 2 is their sum, as \<^verbatim>\<open>CaMeLInt.add\<close> builds it;
  object 3 is the list \<^verbatim>\<open>[8]\<close>; object 4 is the integer 3, read by a tool from a message of
  \<open>mallory\<close>; object 5 is the sum of the objects 1 and 4.
\<close>

definition example_heap :: heap where
  "example_heap =
    [\<lparr>python_value = CaMeLInt (PyInt 7),
      metadata = \<lparr>sources_set = {Enum User}, readers_set = ReaderSet {''alice''}\<rparr>,
      dependencies = []\<rparr>,
     \<lparr>python_value = CaMeLInt (PyInt 8), metadata = default, dependencies = []\<rparr>,
     \<lparr>python_value = CaMeLInt (PyInt 15), metadata = camel, dependencies = [0, 1]\<rparr>,
     \<lparr>python_value = CaMeLList [1], metadata = camel, dependencies = []\<rparr>,
     \<lparr>python_value = CaMeLInt (PyInt 3),
      metadata = \<lparr>sources_set = {Tool ''read_email'' {InnerStr ''mallory''}}, readers_set = Public\<rparr>,
      dependencies = []\<rparr>,
     \<lparr>python_value = CaMeLInt (PyInt 11), metadata = camel, dependencies = [1, 4]\<rparr>]"

text \<open>
  A matcher that knows the pattern \<^verbatim>\<open>*\<close> and literal names, and an engine with three rules.
\<close>

definition star_or_literal :: "string \<Rightarrow> string \<Rightarrow> bool" where
  "star_or_literal name pat \<longleftrightarrow> pat = ''*'' \<or> name = pat"

definition example_engine :: SecurityPolicyEngine where
  "example_engine =
    \<lparr>policies =
       [(''get_balance'', \<lambda>tool_name kwargs. Inr Allowed),
        (''*'', \<lambda>tool_name kwargs. Inr (Denied (Message ''recipient does not come from user''))),
        (''send_email'', \<lambda>tool_name kwargs. Inr Allowed)],
     no_side_effect_tools = {''query_ai_assistant''}\<rparr>"

text \<open>
  Two lists that contain each other. In \<open>acyclic_heap\<close> object 0 is the integer 0, object 1
  the integer 1, object 2 the list \<^verbatim>\<open>l1 = [0, l2]\<close> and object 3 the list \<^verbatim>\<open>l2 = [1, 1]\<close>.
  The assignment \<^verbatim>\<open>l2[1] = l1\<close> turns it into \<open>cyclic_heap\<close>.
\<close>

definition acyclic_heap :: heap where
  "acyclic_heap =
    [\<lparr>python_value = CaMeLInt (PyInt 0), metadata = default, dependencies = []\<rparr>,
     \<lparr>python_value = CaMeLInt (PyInt 1), metadata = default, dependencies = []\<rparr>,
     \<lparr>python_value = CaMeLList [0, 3], metadata = camel, dependencies = []\<rparr>,
     \<lparr>python_value = CaMeLList [1, 1], metadata = camel, dependencies = []\<rparr>]"

definition cyclic_heap :: heap where
  "cyclic_heap =
    [\<lparr>python_value = CaMeLInt (PyInt 0), metadata = default, dependencies = []\<rparr>,
     \<lparr>python_value = CaMeLInt (PyInt 1), metadata = default, dependencies = []\<rparr>,
     \<lparr>python_value = CaMeLList [0, 3], metadata = camel, dependencies = []\<rparr>,
     \<lparr>python_value = CaMeLList [1, 2], metadata = camel, dependencies = []\<rparr>]"

text \<open>A store with one dictionary, and the namespace that refers to it.\<close>

definition example_store :: dict_store where
  "example_store = [[''a'' \<mapsto> 0, ''b'' \<mapsto> 1]]"

definition example_namespace :: Namespace where
  "example_namespace = \<lparr>variables = 0\<rparr>"

text \<open>
  Python primitives for the examples, none of which computes with a float, a set or a
  dictionary: here every such computation raises. There are three Python callables,
  each taking one list: callable 0 is \<^verbatim>\<open>len\<close>; callable 1 is \<^verbatim>\<open>list.clear\<close>, which empties
  the list and returns \<^verbatim>\<open>None\<close>; callable 2 is a class whose constructor empties the list
  and returns the new instance, the Python object 7.
\<close>

definition example_python :: python where
  "example_python =
    \<lparr>float_binop = (\<lambda>op x y. Inl OverflowError),
     float_unary = (\<lambda>op x. Inl OverflowError),
     float_eq = (\<lambda>x y. False),
     float_truth = (\<lambda>x. True),
     set_binop = (\<lambda>h op xs ys. Inl TypeError),
     dict_or = (\<lambda>h xs ys. Inl TypeError),
     call_object = (\<lambda>i args kwargs.
       case args of
         [PyList xs] \<Rightarrow>
           if i = 0 then (Inr (PyNum (PyInt (int (length xs)))), args, kwargs)
           else if i = 1 then (Inr PyNone, [PyList []], kwargs)
           else if i = 2 then (Inr (PyObject 7), [PyList []], kwargs)
           else (Inl TypeError, args, kwargs)
       | _ \<Rightarrow> (Inl TypeError, args, kwargs))\<rparr>"

text \<open>
  The list \<^verbatim>\<open>[2, 3]\<close> and the integer 1, as literals: object 0 is the integer 1, objects 1
  and 2 are the integers 2 and 3, object 3 is the list of the objects 1 and 2, object 4
  is the list \<^verbatim>\<open>[2]\<close>. No object has a dependency.
\<close>

definition literal_heap :: heap where
  "literal_heap =
    [\<lparr>python_value = CaMeLInt (PyInt 1), metadata = default, dependencies = []\<rparr>,
     \<lparr>python_value = CaMeLInt (PyInt 2), metadata = default, dependencies = []\<rparr>,
     \<lparr>python_value = CaMeLInt (PyInt 3), metadata = default, dependencies = []\<rparr>,
     \<lparr>python_value = CaMeLList [1, 2], metadata = default, dependencies = []\<rparr>,
     \<lparr>python_value = CaMeLList [1], metadata = default, dependencies = []\<rparr>]"

text \<open>
  The strings \<^verbatim>\<open>'bcd'\<close> and \<^verbatim>\<open>'a'\<close>, as \<^verbatim>\<open>CaMeLStr.from_raw\<close> builds them for a literal:
  objects 0 to 2 are the characters of the first, which is object 3; object 4 is the
  character of the second, which is object 5.
\<close>

definition string_heap :: heap where
  "string_heap =
    [\<lparr>python_value = CaMeLChar ''b'', metadata = default, dependencies = []\<rparr>,
     \<lparr>python_value = CaMeLChar ''c'', metadata = default, dependencies = []\<rparr>,
     \<lparr>python_value = CaMeLChar ''d'', metadata = default, dependencies = []\<rparr>,
     \<lparr>python_value = CaMeLStr [0, 1, 2], metadata = default, dependencies = []\<rparr>,
     \<lparr>python_value = CaMeLChar ''a'', metadata = default, dependencies = []\<rparr>,
     \<lparr>python_value = CaMeLStr [4], metadata = default, dependencies = []\<rparr>]"

text \<open>
  A list that only \<open>alice\<close> may read: object 0 is the public integer 1, object 1 the
  integer 2 and object 2 the list \<^verbatim>\<open>[2]\<close>, both readable by \<open>alice\<close> only.
\<close>

definition private_list_heap :: heap where
  "private_list_heap =
    [\<lparr>python_value = CaMeLInt (PyInt 1), metadata = default, dependencies = []\<rparr>,
     \<lparr>python_value = CaMeLInt (PyInt 2),
      metadata = \<lparr>sources_set = {Enum User}, readers_set = ReaderSet {''alice''}\<rparr>,
      dependencies = []\<rparr>,
     \<lparr>python_value = CaMeLList [1],
      metadata = \<lparr>sources_set = {Enum User}, readers_set = ReaderSet {''alice''}\<rparr>,
      dependencies = []\<rparr>]"

text \<open>
  An iterator over a list: object 0 is the integer 8, object 1 the list \<^verbatim>\<open>[8]\<close> and
  object 2 the iterator that \<open>iterate\<close> makes for the list.
\<close>

definition iterator_heap :: heap where
  "iterator_heap =
    [\<lparr>python_value = CaMeLInt (PyInt 8), metadata = default, dependencies = []\<rparr>,
     \<lparr>python_value = CaMeLList [0], metadata = default, dependencies = []\<rparr>,
     \<lparr>python_value = CaMeLIterator 0 [0], metadata = camel, dependencies = [1]\<rparr>]"

text \<open>
  A call with the list \<^verbatim>\<open>[1]\<close> as its only argument: object 0 is the integer 1, object 1
  the list, object 2 the tuple of the positional arguments, object 3 the dictionary of
  the keyword arguments, which is empty; object 4 is the built-in \<^verbatim>\<open>len\<close>, object 5 the
  built-in \<^verbatim>\<open>clear\<close> and object 6 a class, which wrap the Python callables 0, 1 and 2
  of \<open>example_python\<close>.
\<close>

definition call_heap :: heap where
  "call_heap =
    [\<lparr>python_value = CaMeLInt (PyInt 1), metadata = default, dependencies = []\<rparr>,
     \<lparr>python_value = CaMeLList [0], metadata = default, dependencies = []\<rparr>,
     \<lparr>python_value = CaMeLTuple [1], metadata = camel, dependencies = []\<rparr>,
     \<lparr>python_value = CaMeLDict [], metadata = camel, dependencies = []\<rparr>,
     \<lparr>python_value = CaMeLBuiltin ''len'' 0, metadata = camel, dependencies = []\<rparr>,
     \<lparr>python_value = CaMeLBuiltin ''clear'' 1, metadata = camel, dependencies = []\<rparr>,
     \<lparr>python_value = CaMeLClass ''Drain'' 2 [], metadata = camel, dependencies = []\<rparr>]"

text \<open>
  A list whose element was computed from a message: object 0 is the integer 3, read by a
  tool from a message of \<open>mallory\<close>; object 1 is the integer 4, computed from object 0 by
  the interpreter; object 2 is the list \<^verbatim>\<open>[4]\<close>, a literal of the program with no
  dependency of its own.
\<close>

definition tainted_list_heap :: heap where
  "tainted_list_heap =
    [\<lparr>python_value = CaMeLInt (PyInt 3),
      metadata = \<lparr>sources_set = {Tool ''read_email'' {InnerStr ''mallory''}}, readers_set = Public\<rparr>,
      dependencies = []\<rparr>,
     \<lparr>python_value = CaMeLInt (PyInt 4), metadata = camel, dependencies = [0]\<rparr>,
     \<lparr>python_value = CaMeLList [1], metadata = camel, dependencies = []\<rparr>]"

section \<open>Properties of the policy engine\<close>

lemma non_public_variables_all_public:
  "\<forall>d \<in> set deps. is_public n h d = Inr True \<Longrightarrow> non_public_variables n h deps = Inr []"
  by (induction deps) auto

lemma non_public_variables_some_private:
  "\<lbrakk>\<forall>d \<in> set deps. \<exists>b. is_public n h d = Inr b; \<forall>d \<in> set deps. \<exists>r. raw n h d = Inr r;
    \<exists>d \<in> set deps. is_public n h d = Inr False\<rbrakk>
   \<Longrightarrow> \<exists>r rs. non_public_variables n h deps = Inr (r # rs)"
proof (induction deps)
  case Nil
  then show ?case by simp
next
  case (Cons d ds)
  from Cons.prems(1) obtain b where b: "is_public n h d = Inr b" by auto
  from Cons.prems(2) obtain r where r: "raw n h d = Inr r" by auto
  have tail: "\<exists>rs. non_public_variables n h ds = Inr rs"
    using Cons.prems(1,2)
  proof (induction ds)
    case Nil
    then show ?case by simp
  next
    case (Cons x xs)
    then obtain rs where "non_public_variables n h xs = Inr rs" by auto
    moreover from Cons.prems obtain b' r' where "is_public n h x = Inr b'" "raw n h x = Inr r'"
      by auto
    ultimately show ?case by (cases b') auto
  qed
  show ?case
  proof (cases b)
    case False
    with b r tail show ?thesis by auto
  next
    case True
    with b Cons.prems(3) have "\<exists>d \<in> set ds. is_public n h d = Inr False" by auto
    with Cons.IH Cons.prems(1,2) obtain r' rs where "non_public_variables n h ds = Inr (r' # rs)"
      by auto
    with b True show ?thesis by simp
  qed
qed

lemma walk_policies_find:
  "walk_policies fnmatch ps tool_name kwargs =
    (case find (\<lambda>(policy_name, policy). fnmatch tool_name policy_name) ps of
       None \<Rightarrow> Inr (Denied (Message ''No security policy matched for tool. Defaulting to denial.''))
     | Some (policy_name, policy) \<Rightarrow> policy tool_name kwargs)"
  by (induction ps) auto

text \<open>
  C1. \<open>check_policy\<close> allows a tool of the no-side-effect set without looking at anything
  else. For any other tool: when some dependency is not public (and the readers and the
  raw payloads of the dependencies can be computed), the result is a denial; when every
  dependency is public, the result is that of the first policy of the list whose pattern
  matches the tool name, and a denial when no pattern matches.
\<close>

theorem check_policy_contract:
  "(tool_name \<in> no_side_effect_tools self \<longrightarrow>
      check_policy n fnmatch self h tool_name kwargs deps = Inr Allowed) \<and>
   (tool_name \<notin> no_side_effect_tools self \<and>
    (\<forall>d \<in> set deps. \<exists>b. is_public n h d = Inr b) \<and> (\<forall>d \<in> set deps. \<exists>r. raw n h d = Inr r) \<and>
    (\<exists>d \<in> set deps. is_public n h d = Inr False) \<longrightarrow>
      (\<exists>why. check_policy n fnmatch self h tool_name kwargs deps = Inr (Denied why))) \<and>
   (tool_name \<notin> no_side_effect_tools self \<and> (\<forall>d \<in> set deps. is_public n h d = Inr True) \<longrightarrow>
      check_policy n fnmatch self h tool_name kwargs deps =
        (case find (\<lambda>(policy_name, policy). fnmatch tool_name policy_name) (policies self) of
           None \<Rightarrow> Inr (Denied (Message ''No security policy matched for tool. Defaulting to denial.''))
         | Some (policy_name, policy) \<Rightarrow> policy tool_name kwargs))"
proof (intro conjI impI)
  assume "tool_name \<in> no_side_effect_tools self"
  then show "check_policy n fnmatch self h tool_name kwargs deps = Inr Allowed"
    by (simp add: check_policy_def)
next
  assume a: "tool_name \<notin> no_side_effect_tools self \<and>
    (\<forall>d \<in> set deps. \<exists>b. is_public n h d = Inr b) \<and> (\<forall>d \<in> set deps. \<exists>r. raw n h d = Inr r) \<and>
    (\<exists>d \<in> set deps. is_public n h d = Inr False)"
  then obtain r rs where "non_public_variables n h deps = Inr (r # rs)"
    using non_public_variables_some_private [of deps n h] by blast
  with a show "\<exists>why. check_policy n fnmatch self h tool_name kwargs deps = Inr (Denied why)"
    by (simp add: check_policy_def)
next
  assume a: "tool_name \<notin> no_side_effect_tools self \<and> (\<forall>d \<in> set deps. is_public n h d = Inr True)"
  then have "non_public_variables n h deps = Inr []"
    using non_public_variables_all_public by blast
  with a show "check_policy n fnmatch self h tool_name kwargs deps =
        (case find (\<lambda>(policy_name, policy). fnmatch tool_name policy_name) (policies self) of
           None \<Rightarrow> Inr (Denied (Message ''No security policy matched for tool. Defaulting to denial.''))
         | Some (policy_name, policy) \<Rightarrow> policy tool_name kwargs)"
    by (simp add: check_policy_def walk_policies_find)
qed

lemma example_heap_is_public:
  "is_public 3 example_heap 2 = Inr False" "is_public 3 example_heap 3 = Inr True"
  by (simp_all add: is_public_def eval_nat_numeral example_heap_def deref_def default_def camel_def)

lemma example_heap_raw: "raw 3 example_heap 2 = Inr (PyNum (PyInt 15))"
  by (simp add: eval_nat_numeral example_heap_def deref_def)

theorem check_policy_contract_witness:
  "check_policy 3 star_or_literal example_engine example_heap ''query_ai_assistant'' Map.empty [2]
     = Inr Allowed \<and>
   (\<exists>why. check_policy 3 star_or_literal example_engine example_heap ''send_email'' Map.empty [2]
     = Inr (Denied why)) \<and>
   check_policy 3 star_or_literal example_engine example_heap ''send_email'' Map.empty [3]
     = Inr (Denied (Message ''recipient does not come from user''))"
proof (intro conjI)
  show "check_policy 3 star_or_literal example_engine example_heap ''query_ai_assistant''
      Map.empty [2] = Inr Allowed"
    using check_policy_contract
      [where tool_name = "''query_ai_assistant''" and self = example_engine and n = 3
        and fnmatch = star_or_literal and h = example_heap and kwargs = Map.empty and deps = "[2]"]
    by (simp add: example_engine_def)
  show "\<exists>why. check_policy 3 star_or_literal example_engine example_heap ''send_email''
      Map.empty [2] = Inr (Denied why)"
    using check_policy_contract
      [where tool_name = "''send_email''" and self = example_engine and n = 3
        and fnmatch = star_or_literal and h = example_heap and kwargs = Map.empty and deps = "[2]"]
    by (auto simp: example_engine_def example_heap_is_public example_heap_raw)
  show "check_policy 3 star_or_literal example_engine example_heap ''send_email''
      Map.empty [3] = Inr (Denied (Message ''recipient does not come from user''))"
    using check_policy_contract
      [where tool_name = "''send_email''" and self = example_engine and n = 3
        and fnmatch = star_or_literal and h = example_heap and kwargs = Map.empty and deps = "[3]"]
    by (simp add: example_engine_def example_heap_is_public star_or_literal_def)
qed

section \<open>More frames do not change a result\<close>

lemma get_dependencies_elements_frames:
  assumes "\<And>a V r. get_dependencies n h a V = Inr r \<Longrightarrow> get_dependencies m h a V = Inr r"
  shows "get_dependencies_elements n h self els ds V = Inr r \<Longrightarrow>
         get_dependencies_elements m h self els ds V = Inr r"
proof (induction els arbitrary: ds V)
  case Nil
  then show ?case by simp
next
  case (Cons el els)
  from Cons.prems obtain nd V' where
      1: "get_dependencies n h el (V \<union> {self}) = Inr (nd, V')" and
      2: "get_dependencies_elements n h self els (ds @ nd) V' = Inr r"
    by (auto split: sum.splits)
  from assms [OF 1] Cons.IH [OF 2] show ?case by simp
qed

lemma get_dependencies_items_frames:
  assumes "\<And>a V r. get_dependencies n h a V = Inr r \<Longrightarrow> get_dependencies m h a V = Inr r"
  shows "get_dependencies_items n h its ds V = Inr r \<Longrightarrow>
         get_dependencies_items m h its ds V = Inr r"
proof (induction its arbitrary: ds V)
  case Nil
  then show ?case by simp
next
  case (Cons kv its)
  obtain k v where kv: "kv = (k, v)" by (cases kv)
  from Cons.prems kv obtain kd kV vd vV where
      1: "get_dependencies n h k V = Inr (kd, kV)" and
      2: "get_dependencies n h v kV = Inr (vd, vV)" and
      3: "get_dependencies_items n h its (ds @ kd @ vd) vV = Inr r"
    by (auto split: sum.splits)
  from assms [OF 1] assms [OF 2] Cons.IH [OF 3] kv show ?case by simp
qed

lemma get_dependencies_Suc_frame:
  "get_dependencies n h a V = Inr r \<Longrightarrow> get_dependencies (Suc n) h a V = Inr r"
proof (induction n arbitrary: a V r)
  case 0
  then show ?case by simp
next
  case (Suc n)
  note ih = Suc.IH
  from Suc.prems obtain ob where ob: "deref h a = Some ob"
    by (auto split: option.splits)
  show ?case
  proof (cases "base_class_of (python_value ob)")
    case CaMeLValue
    with Suc.prems ob show ?thesis by simp
  next
    case (CaMeLIterable els)
    show ?thesis
    proof (cases "a \<in> V")
      case True
      with Suc.prems ob CaMeLIterable show ?thesis by simp
    next
      case False
      with Suc.prems ob CaMeLIterable obtain ds V' where
          1: "get_dependencies_elements n h a els (dependencies ob) V = Inr (ds, V')" and
          r: "r = (ds, V' \<union> {a})"
        by (auto split: sum.splits)
      from get_dependencies_elements_frames [of n h "Suc n", OF ih 1]
      have "get_dependencies_elements (Suc n) h a els (dependencies ob) V = Inr (ds, V')" .
      with ob CaMeLIterable False r show ?thesis
        by (simp add: get_dependencies.simps(2) [of "Suc n"])
    qed
  next
    case (CaMeLMapping its)
    show ?thesis
    proof (cases "a \<in> V")
      case True
      with Suc.prems ob CaMeLMapping show ?thesis by simp
    next
      case False
      with Suc.prems ob CaMeLMapping have
          1: "get_dependencies_items n h its (dependencies ob) (V \<union> {a}) = Inr r"
        by simp
      from get_dependencies_items_frames [of n h "Suc n", OF ih 1]
      have "get_dependencies_items (Suc n) h its (dependencies ob) (V \<union> {a}) = Inr r" .
      with ob CaMeLMapping False show ?thesis
        by (simp add: get_dependencies.simps(2) [of "Suc n"])
    qed
  next
    case (CaMeLClassMethods ms)
    show ?thesis
    proof (cases "a \<in> V")
      case True
      with Suc.prems ob CaMeLClassMethods show ?thesis by simp
    next
      case False
      with Suc.prems ob CaMeLClassMethods have
          1: "get_dependencies_elements n h a ms (dependencies ob) V = Inr r"
        by simp
      from get_dependencies_elements_frames [of n h "Suc n", OF ih 1]
      have "get_dependencies_elements (Suc n) h a ms (dependencies ob) V = Inr r" .
      with ob CaMeLClassMethods False show ?thesis
        by (simp add: get_dependencies.simps(2) [of "Suc n"])
    qed
  qed
qed

lemma get_dependencies_more_frames:
  "get_dependencies n h a V = Inr r \<Longrightarrow> get_dependencies (n + k) h a V = Inr r"
  by (induction k) (auto dest: get_dependencies_Suc_frame)

lemma get_dependencies_deterministic:
  assumes "get_dependencies n h a V = Inr r" and "get_dependencies m h a V = Inr r'"
  shows "r = r'"
proof -
  from get_dependencies_more_frames [OF assms(1), of m]
       get_dependencies_more_frames [OF assms(2), of n]
  show ?thesis by (simp add: add.commute)
qed

section \<open>Properties of the reader and source traversals\<close>

text \<open>
  C3. \<open>can_readers_read_value\<close> returns exactly when \<open>get_all_readers\<close> does, and
  its result is \<open>True\<close> if and only if the readers of the value are \<open>Public\<close> or a set
  that includes the candidate readers. In particular a result \<open>True\<close> implies that the
  readers are \<open>Public\<close> or include the candidates.
\<close>

theorem can_readers_read_value_iff:
  "(can_readers_read_value n h potential_readers v = Inr b \<longleftrightarrow>
      (\<exists>value_readers visited. get_all_readers n h v {} = Inr (value_readers, visited) \<and>
         (b \<longleftrightarrow> value_readers = Public \<or>
            (\<exists>s. value_readers = ReaderSet s \<and> potential_readers \<subseteq> s)))) \<and>
   (can_readers_read_value n h potential_readers v = Inr True \<longrightarrow>
      (\<exists>value_readers visited. get_all_readers n h v {} = Inr (value_readers, visited) \<and>
         (value_readers = Public \<or> (\<exists>s. value_readers = ReaderSet s \<and> potential_readers \<subseteq> s))))"
  by (auto simp: can_readers_read_value_def split: sum.splits Readers.splits)

theorem can_readers_read_value_iff_witness:
  "can_readers_read_value 3 example_heap {''alice''} 2 = Inr True \<and>
   can_readers_read_value 3 example_heap {''alice'', ''bob''} 2 = Inr False \<and>
   can_readers_read_value 3 example_heap {''alice'', ''bob''} 3 = Inr True \<and>
   (\<exists>value_readers visited. get_all_readers 3 example_heap 2 {} = Inr (value_readers, visited) \<and>
      (value_readers = Public \<or> (\<exists>s. value_readers = ReaderSet s \<and> {''alice''} \<subseteq> s)))"
proof -
  have r2: "get_all_readers 3 example_heap 2 {} = Inr (ReaderSet {''alice''}, {0, 1, 2})"
    by (auto simp: eval_nat_numeral example_heap_def deref_def default_def camel_def)
  have r3: "get_all_readers 3 example_heap 3 {} = Inr (Public, {3})"
    by (auto simp: eval_nat_numeral example_heap_def deref_def default_def camel_def)
  have a: "can_readers_read_value 3 example_heap {''alice''} 2 = Inr True"
    using can_readers_read_value_iff [of 3 example_heap "{''alice''}" 2 True] r2 by simp
  have b: "can_readers_read_value 3 example_heap {''alice'', ''bob''} 2 = Inr False"
    using can_readers_read_value_iff [of 3 example_heap "{''alice'', ''bob''}" 2 False] r2 by simp
  have c: "can_readers_read_value 3 example_heap {''alice'', ''bob''} 3 = Inr True"
    using can_readers_read_value_iff [of 3 example_heap "{''alice'', ''bob''}" 3 True] r3 by simp
  from a b c can_readers_read_value_iff [of 3 example_heap "{''alice''}" 2 True]
  show ?thesis by blast
qed

section \<open>Cyclic values\<close>

lemma cyclic_heap_built:
  "set_index acyclic_heap 3 1 2 =
     Inr (cyclic_heap, \<lparr>python_value = CaMeLNone, metadata = camel, dependencies = [3, 1]\<rparr>)"
  by (simp add: set_index_def py_subscript_def acyclic_heap_def cyclic_heap_def deref_def)

lemma cyclic_heap_closed: "closed_heap cyclic_heap"
  by (simp add: closed_heap_def cyclic_heap_def)

lemma cyclic_heap_deref:
  "deref cyclic_heap 0 =
    Some \<lparr>python_value = CaMeLInt (PyInt 0), metadata = default, dependencies = []\<rparr>"
  "deref cyclic_heap (Suc 0) =
    Some \<lparr>python_value = CaMeLInt (PyInt 1), metadata = default, dependencies = []\<rparr>"
  "deref cyclic_heap 2 =
    Some \<lparr>python_value = CaMeLList [0, 3], metadata = camel, dependencies = []\<rparr>"
  "deref cyclic_heap 3 =
    Some \<lparr>python_value = CaMeLList [1, 2], metadata = camel, dependencies = []\<rparr>"
  by (simp_all add: cyclic_heap_def deref_def eval_nat_numeral)

text \<open>
  Inside the cycle the traversal comes back to the same call: each integer resets the
  visited set to itself, so the list that was left two steps before is entered again.
\<close>

lemma cyclic_heap_inner_calls:
  "get_dependencies n cyclic_heap 3 {0, 2} = Inl RecursionError \<and>
   get_dependencies n cyclic_heap 2 {1, 3} = Inl RecursionError"
proof (induction n)
  case 0
  then show ?case by simp
next
  case (Suc n)
  show ?case
  proof (cases n)
    case 0
    then show ?thesis by (simp add: cyclic_heap_deref)
  next
    case (Suc m)
    have s0: "get_dependencies n cyclic_heap 0 V = Inr ([], {0})" for V
      using Suc by (simp add: cyclic_heap_deref)
    have s1: "get_dependencies n cyclic_heap 1 V = Inr ([], {1})" for V
      using Suc by (simp add: cyclic_heap_deref)
    from Suc.IH s0 s1 show ?thesis
      by (simp add: cyclic_heap_deref insert_commute)
  qed
qed

lemma cyclic_heap_get_dependencies:
  "get_dependencies n cyclic_heap 2 {} = Inl RecursionError"
proof (cases n)
  case 0
  then show ?thesis by simp
next
  case (Suc m)
  show ?thesis
  proof (cases m)
    case 0
    with Suc show ?thesis by (simp add: cyclic_heap_deref)
  next
    case (Suc k)
    have s0: "get_dependencies m cyclic_heap 0 V = Inr ([], {0})" for V
      using Suc by (simp add: cyclic_heap_deref)
    from cyclic_heap_inner_calls [of m] s0 \<open>n = Suc m\<close> show ?thesis
      by (simp add: cyclic_heap_deref insert_commute)
  qed
qed

text \<open>
  C9. On the two lists that contain each other, \<open>get_dependencies\<close> ends in
  \<^verbatim>\<open>RecursionError\<close> whatever the number of frames it is given, and so do
  \<open>get_all_readers\<close> and \<open>get_all_sources\<close>, which start by calling it: the traversals
  do not terminate on every value.
\<close>

theorem cyclic_traversals_diverge:
  "\<forall>n. get_dependencies n cyclic_heap 2 {} = Inl RecursionError \<and>
       get_all_readers n cyclic_heap 2 {} = Inl RecursionError \<and>
       get_all_sources n cyclic_heap 2 {} = Inl RecursionError"
proof (intro allI conjI)
  fix n
  show "get_dependencies n cyclic_heap 2 {} = Inl RecursionError"
    by (rule cyclic_heap_get_dependencies)
  show "get_all_readers n cyclic_heap 2 {} = Inl RecursionError"
    by (cases n) (simp_all add: cyclic_heap_deref cyclic_heap_get_dependencies)
  show "get_all_sources n cyclic_heap 2 {} = Inl RecursionError"
    by (cases n) (simp_all add: cyclic_heap_deref cyclic_heap_get_dependencies)
qed

section \<open>Properties of namespaces\<close>

text \<open>
  C10. For a namespace \<open>n\<close> of the store and a dictionary \<open>m\<close>, \<open>add_variables\<close> returns a
  new namespace whose bindings are those of \<open>n\<close> updated with \<open>m\<close>: \<open>get\<close> on the result
  returns the binding of \<open>m\<close> for every name of \<open>m\<close> and the binding of \<open>n\<close> for every other
  name. The new namespace has a dictionary of its own, and every dictionary of the old
  store, that of \<open>n\<close> among them, is left as it was.
\<close>

theorem add_variables_frame:
  assumes "variables n < length st" and "add_variables st n m = (st', n')"
  shows "(\<forall>k. get st' n' k = (case m k of Some v \<Rightarrow> Some v | None \<Rightarrow> get st n k)) \<and>
         (\<forall>k \<in> dom m. get st' n' k = m k) \<and>
         (\<forall>k. get st' n k = get st n k) \<and>
         variables n' \<noteq> variables n \<and>
         (\<forall>a < length st. st' ! a = st ! a)"
  using assms
  by (auto simp: add_variables_def get_def nth_append map_add_def split: option.splits)

theorem add_variables_frame_witness:
  "get (fst (add_variables example_store example_namespace [''b'' \<mapsto> 5, ''c'' \<mapsto> 6]))
       (snd (add_variables example_store example_namespace [''b'' \<mapsto> 5, ''c'' \<mapsto> 6])) ''b''
     = Some 5 \<and>
   get (fst (add_variables example_store example_namespace [''b'' \<mapsto> 5, ''c'' \<mapsto> 6]))
       (snd (add_variables example_store example_namespace [''b'' \<mapsto> 5, ''c'' \<mapsto> 6])) ''a''
     = Some 0 \<and>
   get (fst (add_variables example_store example_namespace [''b'' \<mapsto> 5, ''c'' \<mapsto> 6]))
       example_namespace ''b'' = Some 1"
proof -
  have l: "variables example_namespace < length example_store"
    by (simp add: example_namespace_def example_store_def)
  have g: "get example_store example_namespace ''b'' = Some 1"
      "get example_store example_namespace ''a'' = Some 0"
    by (simp_all add: get_def example_namespace_def example_store_def)
  from add_variables_frame [OF l surjective_pairing, of "[''b'' \<mapsto> 5, ''c'' \<mapsto> 6]"] g
  show ?thesis by simp
qed

section \<open>What \<open>get_dependencies\<close> returns\<close>

lemma get_dependencies_elements_keeps:
  "get_dependencies_elements n h self els ds V = Inr (deps, V') \<Longrightarrow> set ds \<subseteq> set deps"
proof (induction els arbitrary: ds V)
  case Nil
  then show ?case by simp
next
  case (Cons el els)
  from Cons.prems obtain nd V1 where
    "get_dependencies_elements n h self els (ds @ nd) V1 = Inr (deps, V')"
    by (auto split: sum.splits)
  from Cons.IH [OF this] show ?case by simp
qed

lemma get_dependencies_items_keeps:
  "get_dependencies_items n h its ds V = Inr (deps, V') \<Longrightarrow> set ds \<subseteq> set deps"
proof (induction its arbitrary: ds V)
  case Nil
  then show ?case by simp
next
  case (Cons kv its)
  obtain k v where kv: "kv = (k, v)" by (cases kv)
  from Cons.prems kv obtain kd vd V1 where
    "get_dependencies_items n h its (ds @ kd @ vd) V1 = Inr (deps, V')"
    by (auto split: sum.splits)
  from Cons.IH [OF this] show ?case by simp
qed

lemma get_dependencies_keeps:
  assumes "get_dependencies n h v V = Inr (deps, V')" and "deref h v = Some ob"
  shows "set (dependencies ob) \<subseteq> set deps"
proof (cases n)
  case 0
  with assms show ?thesis by simp
next
  case (Suc m)
  show ?thesis
  proof (cases "base_class_of (python_value ob)")
    case CaMeLValue
    with assms Suc show ?thesis by auto
  next
    case (CaMeLIterable els)
    with assms Suc show ?thesis
      by (auto split: if_splits sum.splits dest: get_dependencies_elements_keeps)
  next
    case (CaMeLMapping its)
    with assms Suc show ?thesis
      by (auto split: if_splits dest: get_dependencies_items_keeps)
  next
    case (CaMeLClassMethods ms)
    with assms Suc show ?thesis
      by (auto split: if_splits dest: get_dependencies_elements_keeps)
  qed
qed

section \<open>The sources that the traversal collects\<close>

lemma reaches_refl: "a \<notin> V \<Longrightarrow> reaches h V a a"
  by (simp add: reaches_def)

lemma avoiding_mono: "V \<subseteq> V' \<Longrightarrow> avoiding h V' \<subseteq> avoiding h V"
  by (auto simp: avoiding_def)

lemma reaches_mono: "V \<subseteq> V' \<Longrightarrow> reaches h V' a w \<Longrightarrow> reaches h V a w"
  using rtrancl_mono [OF avoiding_mono, of V V' h] by (auto simp: reaches_def)

lemma reaches_trans: "reaches h V a x \<Longrightarrow> reaches h V x w \<Longrightarrow> reaches h V a w"
  by (auto simp: reaches_def)

lemma reaches_source: "reaches h V a w \<Longrightarrow> a \<notin> V"
  by (simp add: reaches_def)

lemma reaches_target: "reaches h V a w \<Longrightarrow> w \<notin> V"
  unfolding reaches_def
  by (erule conjE, erule rtranclE) (auto simp: avoiding_def)

lemma reaches_step:
  "(a, d) \<in> dependency_edges h \<Longrightarrow> a \<notin> V \<Longrightarrow> reaches h V d w \<Longrightarrow> reaches h V a w"
  unfolding reaches_def
  by (auto simp: avoiding_def intro: converse_rtrancl_into_rtrancl)

lemma reaches_split:
  assumes "reaches h U a w" and "U \<subseteq> U'"
  shows "reaches h U' a w \<or> (\<exists>x \<in> U' - U. reaches h U x w)"
proof -
  from assms(1) have "(a, w) \<in> (avoiding h U)\<^sup>*" and "a \<notin> U" by (auto simp: reaches_def)
  then show ?thesis
  proof (induction rule: converse_rtrancl_induct)
    case base
    then show ?case by (cases "w \<in> U'") (auto simp: reaches_def)
  next
    case (step y z)
    from step.hyps(1) have yz: "(y, z) \<in> dependency_edges h" "z \<notin> U" by (auto simp: avoiding_def)
    show ?case
    proof (cases "y \<in> U'")
      case True
      with step have "reaches h U y w"
        by (auto simp: reaches_def intro: converse_rtrancl_into_rtrancl)
      with True step.prems show ?thesis by blast
    next
      case False
      from step.IH [OF yz(2)] show ?thesis
      proof
        assume "reaches h U' z w"
        with yz(1) False have "reaches h U' y w" by (rule reaches_step)
        then show ?thesis ..
      next
        assume "\<exists>x \<in> U' - U. reaches h U x w"
        then show ?thesis ..
      qed
    qed
  qed
qed

lemma reaches_first_step:
  assumes "reaches h V v w"
  shows "w = v \<or> (\<exists>d. (v, d) \<in> dependency_edges h \<and> reaches h (V \<union> {v}) d w)"
proof -
  from assms have "(v, w) \<in> (avoiding h V)\<^sup>*" and v: "v \<notin> V" by (auto simp: reaches_def)
  then show ?thesis
  proof (induction rule: rtrancl_induct)
    case base
    then show ?case by simp
  next
    case (step y z)
    from step.hyps(2) have yz: "(y, z) \<in> dependency_edges h" "y \<notin> V" "z \<notin> V"
      by (auto simp: avoiding_def)
    show ?case
    proof (cases "z = v")
      case True
      then show ?thesis by simp
    next
      case False
      from step.IH [OF v] show ?thesis
      proof
        assume "y = v"
        with yz False have "(v, z) \<in> dependency_edges h \<and> reaches h (V \<union> {v}) z z"
          by (simp add: reaches_def)
        then show ?thesis by blast
      next
        assume "\<exists>d. (v, d) \<in> dependency_edges h \<and> reaches h (V \<union> {v}) d y"
        then obtain d where d: "(v, d) \<in> dependency_edges h" "reaches h (V \<union> {v}) d y" by blast
        from d(2) have "y \<notin> V \<union> {v}" by (rule reaches_target)
        with yz False have "(y, z) \<in> avoiding h (V \<union> {v})" by (simp add: avoiding_def)
        with d(2) have "reaches h (V \<union> {v}) d z" by (auto simp: reaches_def)
        with d(1) show ?thesis by blast
      qed
    qed
  qed
qed

lemma reaches_empty: "reaches h {} v w \<longleftrightarrow> (v, w) \<in> (dependency_edges h)\<^sup>*"
proof -
  have "avoiding h {} = dependency_edges h" by (auto simp: avoiding_def)
  then show ?thesis by (simp add: reaches_def)
qed

lemma reachable_sources_own: "own_sources h v \<subseteq> reachable_sources h v"
  by (auto simp: reachable_sources_def)

lemma reachable_sources_edge:
  "(v, d) \<in> dependency_edges h \<Longrightarrow> reachable_sources h d \<subseteq> reachable_sources h v"
  by (auto simp: reachable_sources_def intro: converse_rtrancl_into_rtrancl)

lemma dependency_edges_of_call:
  assumes "get_dependencies n h v {} = Inr (deps, visited)"
  shows "(v, d) \<in> dependency_edges h \<longleftrightarrow> d \<in> set deps"
proof
  assume "(v, d) \<in> dependency_edges h"
  then obtain m deps' visited' where
    "get_dependencies m h v {} = Inr (deps', visited')" "d \<in> set deps'"
    by (auto simp: dependency_edges_def)
  with get_dependencies_deterministic [OF assms this(1)] show "d \<in> set deps" by simp
next
  assume "d \<in> set deps"
  with assms show "(v, d) \<in> dependency_edges h" by (auto simp: dependency_edges_def)
qed

lemma get_all_sources_loop_post:
  assumes gas: "\<And>d V S V'. get_all_sources n h d V = Inr (S, V') \<Longrightarrow> sources_post h d V S V'"
    and "get_all_sources_loop n h v ds S0 V0 = Inr (S, V')"
    and "v \<notin> U" and "U \<subseteq> V0"
    and "\<forall>x \<in> V0 - U - {v}. \<exists>d \<in> P. reaches h (U \<union> {v}) d x"
    and "\<forall>d \<in> P. \<forall>w. reaches h (U \<union> {v}) d w \<longrightarrow> own_sources h w \<subseteq> S0"
  shows "V0 \<subseteq> V' \<and>
    (\<forall>x \<in> V' - U - {v}. \<exists>d \<in> P \<union> set ds. reaches h (U \<union> {v}) d x) \<and>
    (\<forall>d \<in> P \<union> set ds. \<forall>w. reaches h (U \<union> {v}) d w \<longrightarrow> own_sources h w \<subseteq> S) \<and>
    S0 \<subseteq> S \<and> S \<subseteq> S0 \<union> (\<Union>d \<in> set ds. reachable_sources h d)"
  using assms(2-)
proof (induction ds arbitrary: S0 V0 P)
  case Nil
  then show ?case by auto
next
  case (Cons d ds)
  from Cons.prems(1) obtain Sd Vd where
      call: "get_all_sources n h d (V0 \<union> {v}) = Inr (Sd, Vd)" and
      rest: "get_all_sources_loop n h v ds (S0 \<union> Sd) Vd = Inr (S, V')"
    by (auto split: sum.splits)
  from gas [OF call] have
      sub: "V0 \<union> {v} \<subseteq> Vd" and
      new: "\<forall>x \<in> Vd - (V0 \<union> {v}). reaches h (V0 \<union> {v}) d x" and
      all: "\<forall>w. reaches h (V0 \<union> {v}) d w \<longrightarrow> own_sources h w \<subseteq> Sd" and
      snd: "Sd \<subseteq> reachable_sources h d"
    by (auto simp: sources_post_def)
  have UV: "U \<union> {v} \<subseteq> V0 \<union> {v}" using Cons.prems(3) by auto
  have p2: "U \<subseteq> Vd" using sub Cons.prems(3) by auto
  have p3: "\<forall>x \<in> Vd - U - {v}. \<exists>d' \<in> insert d P. reaches h (U \<union> {v}) d' x"
  proof
    fix x assume x: "x \<in> Vd - U - {v}"
    show "\<exists>d' \<in> insert d P. reaches h (U \<union> {v}) d' x"
    proof (cases "x \<in> V0")
      case True
      with x Cons.prems(4) show ?thesis by auto
    next
      case False
      with x new have "reaches h (V0 \<union> {v}) d x" by auto
      from reaches_mono [OF UV this] show ?thesis by auto
    qed
  qed
  have p4: "\<forall>d' \<in> insert d P. \<forall>w. reaches h (U \<union> {v}) d' w \<longrightarrow> own_sources h w \<subseteq> S0 \<union> Sd"
  proof (intro ballI allI impI)
    fix d' w assume d': "d' \<in> insert d P" and r: "reaches h (U \<union> {v}) d' w"
    show "own_sources h w \<subseteq> S0 \<union> Sd"
    proof (cases "d' \<in> P")
      case True
      with r Cons.prems(5) show ?thesis by blast
    next
      case False
      with d' have "d' = d" by simp
      with r have r: "reaches h (U \<union> {v}) d w" by simp
      from reaches_split [OF r UV] show ?thesis
      proof
        assume "reaches h (V0 \<union> {v}) d w"
        with all show ?thesis by blast
      next
        assume "\<exists>x \<in> V0 \<union> {v} - (U \<union> {v}). reaches h (U \<union> {v}) x w"
        then obtain x where x: "x \<in> V0 - U - {v}" "reaches h (U \<union> {v}) x w" by auto
        with Cons.prems(4) obtain d'' where "d'' \<in> P" "reaches h (U \<union> {v}) d'' x" by blast
        with x(2) Cons.prems(5) reaches_trans show ?thesis by blast
      qed
    qed
  qed
  from Cons.IH [OF rest Cons.prems(2) p2 p3 p4] sub snd show ?case by auto
qed

lemma get_all_sources_post:
  "get_all_sources n h v V = Inr (S, V') \<Longrightarrow> sources_post h v V S V'"
proof (induction n arbitrary: v V S V')
  case 0
  then show ?case by simp
next
  case (Suc n)
  show ?case
  proof (cases "v \<in> V")
    case True
    with Suc.prems have "S = {}" "V' = V" by auto
    with True show ?thesis by (auto simp: sources_post_def dest: reaches_source)
  next
    case False
    with Suc.prems obtain ob deps vis where
        ob: "deref h v = Some ob" and
        gd: "get_dependencies n h v {} = Inr (deps, vis)" and
        loop: "get_all_sources_loop n h v deps (sources_set (metadata ob)) V = Inr (S, V')"
      by (auto split: option.splits sum.splits)
    have own: "own_sources h v = sources_set (metadata ob)" using ob by (simp add: own_sources_def)
    note edges = dependency_edges_of_call [OF gd]
    from get_all_sources_loop_post [of n h v deps "sources_set (metadata ob)" V S V' V "{}",
        OF Suc.IH loop False]
    have sub: "V \<subseteq> V'" and
        new: "\<forall>x \<in> V' - V - {v}. \<exists>d \<in> set deps. reaches h (V \<union> {v}) d x" and
        all: "\<forall>d \<in> set deps. \<forall>w. reaches h (V \<union> {v}) d w \<longrightarrow> own_sources h w \<subseteq> S" and
        s0: "sources_set (metadata ob) \<subseteq> S" and
        snd: "S \<subseteq> sources_set (metadata ob) \<union> (\<Union>d \<in> set deps. reachable_sources h d)"
      by auto
    have VV: "V \<subseteq> V \<union> {v}" by auto
    have b: "\<forall>x \<in> V' - V. reaches h V v x"
    proof
      fix x assume x: "x \<in> V' - V"
      show "reaches h V v x"
      proof (cases "x = v")
        case True
        with False show ?thesis by (simp add: reaches_refl)
      next
        case nv: False
        with x new obtain d where d: "d \<in> set deps" "reaches h (V \<union> {v}) d x" by blast
        from d(1) edges have "(v, d) \<in> dependency_edges h" by simp
        from reaches_step [OF this False reaches_mono [OF VV d(2)]] show ?thesis .
      qed
    qed
    have a: "\<forall>w. reaches h V v w \<longrightarrow> own_sources h w \<subseteq> S"
    proof (intro allI impI)
      fix w assume "reaches h V v w"
      from reaches_first_step [OF this] show "own_sources h w \<subseteq> S"
      proof
        assume "w = v"
        with own s0 show ?thesis by simp
      next
        assume "\<exists>d. (v, d) \<in> dependency_edges h \<and> reaches h (V \<union> {v}) d w"
        with edges all show ?thesis by blast
      qed
    qed
    have c: "S \<subseteq> reachable_sources h v"
    proof -
      have "sources_set (metadata ob) \<subseteq> reachable_sources h v"
        using reachable_sources_own [of h v] own by simp
      moreover have "reachable_sources h d \<subseteq> reachable_sources h v" if "d \<in> set deps" for d
        using that edges reachable_sources_edge by blast
      ultimately show ?thesis using snd by blast
    qed
    from sub a b c show ?thesis by (simp add: sources_post_def)
  qed
qed

lemma get_all_sources_spec:
  assumes "get_all_sources n h v {} = Inr (S, V')"
  shows "S = reachable_sources h v"
proof
  from get_all_sources_post [OF assms] show "S \<subseteq> reachable_sources h v"
    by (simp add: sources_post_def)
  from get_all_sources_post [OF assms]
  have "\<forall>w. (v, w) \<in> (dependency_edges h)\<^sup>* \<longrightarrow> own_sources h w \<subseteq> S"
    by (simp add: sources_post_def reaches_empty)
  then show "reachable_sources h v \<subseteq> S" by (auto simp: reachable_sources_def)
qed

lemma get_dependencies_elements_closed:
  assumes "\<And>a V deps V'. get_dependencies n h a V = Inr (deps, V') \<Longrightarrow> \<forall>d \<in> set deps. d < length h"
  shows "get_dependencies_elements n h self els ds V = Inr (deps, V') \<Longrightarrow>
         \<forall>d \<in> set ds. d < length h \<Longrightarrow> \<forall>d \<in> set deps. d < length h"
proof (induction els arbitrary: ds V)
  case Nil
  then show ?case by simp
next
  case (Cons el els)
  from Cons.prems(1) obtain nd V1 where
      1: "get_dependencies n h el (V \<union> {self}) = Inr (nd, V1)" and
      2: "get_dependencies_elements n h self els (ds @ nd) V1 = Inr (deps, V')"
    by (auto split: sum.splits)
  from assms [OF 1] Cons.prems(2) have "\<forall>d \<in> set (ds @ nd). d < length h" by auto
  from Cons.IH [OF 2 this] show ?case .
qed

lemma get_dependencies_items_closed:
  assumes "\<And>a V deps V'. get_dependencies n h a V = Inr (deps, V') \<Longrightarrow> \<forall>d \<in> set deps. d < length h"
  shows "get_dependencies_items n h its ds V = Inr (deps, V') \<Longrightarrow>
         \<forall>d \<in> set ds. d < length h \<Longrightarrow> \<forall>d \<in> set deps. d < length h"
proof (induction its arbitrary: ds V)
  case Nil
  then show ?case by simp
next
  case (Cons kv its)
  obtain k v where kv: "kv = (k, v)" by (cases kv)
  from Cons.prems(1) kv obtain kd kV vd vV where
      1: "get_dependencies n h k V = Inr (kd, kV)" and
      2: "get_dependencies n h v kV = Inr (vd, vV)" and
      3: "get_dependencies_items n h its (ds @ kd @ vd) vV = Inr (deps, V')"
    by (auto split: sum.splits)
  from assms [OF 1] assms [OF 2] Cons.prems(2) have "\<forall>d \<in> set (ds @ kd @ vd). d < length h"
    by auto
  from Cons.IH [OF 3 this] show ?case .
qed

lemma closed_heap_dependencies:
  "closed_heap h \<Longrightarrow> deref h a = Some ob \<Longrightarrow> \<forall>d \<in> set (dependencies ob). d < length h"
  by (auto simp: closed_heap_def deref_def split: if_splits)

lemma get_dependencies_closed:
  assumes "closed_heap h"
  shows "get_dependencies n h a V = Inr (deps, V') \<Longrightarrow> \<forall>d \<in> set deps. d < length h"
proof (induction n arbitrary: a V deps V')
  case 0
  then show ?case by simp
next
  case (Suc n)
  from Suc.prems obtain ob where ob: "deref h a = Some ob"
    by (auto split: option.splits)
  note own = closed_heap_dependencies [OF assms ob]
  show ?case
  proof (cases "base_class_of (python_value ob)")
    case CaMeLValue
    with Suc.prems ob own show ?thesis by auto
  next
    case (CaMeLIterable els)
    show ?thesis
    proof (cases "a \<in> V")
      case True
      with Suc.prems ob CaMeLIterable own show ?thesis by auto
    next
      case False
      with Suc.prems ob CaMeLIterable obtain V1 where
        "get_dependencies_elements n h a els (dependencies ob) V = Inr (deps, V1)"
        by (auto split: sum.splits)
      from get_dependencies_elements_closed [OF Suc.IH this own] show ?thesis .
    qed
  next
    case (CaMeLMapping its)
    show ?thesis
    proof (cases "a \<in> V")
      case True
      with Suc.prems ob CaMeLMapping own show ?thesis by auto
    next
      case False
      with Suc.prems ob CaMeLMapping have
        "get_dependencies_items n h its (dependencies ob) (V \<union> {a}) = Inr (deps, V')"
        by simp
      from get_dependencies_items_closed [OF Suc.IH this own] show ?thesis .
    qed
  next
    case (CaMeLClassMethods ms)
    show ?thesis
    proof (cases "a \<in> V")
      case True
      with Suc.prems ob CaMeLClassMethods own show ?thesis by auto
    next
      case False
      with Suc.prems ob CaMeLClassMethods have
        "get_dependencies_elements n h a ms (dependencies ob) V = Inr (deps, V')"
        by simp
      from get_dependencies_elements_closed [OF Suc.IH this own] show ?thesis .
    qed
  qed
qed


lemma get_all_sources_grows:
  "get_all_sources n h v V = Inr (S, V') \<Longrightarrow> V \<subseteq> V'"
  by (drule get_all_sources_post) (simp add: sources_post_def)

lemma unvisited_less:
  assumes "v < (N::nat)" and "v \<notin> V" and "V \<subseteq> V0"
  shows "card ({..<N} - (V0 \<union> {v})) < card ({..<N} - V)"
proof (rule psubset_card_mono)
  show "finite ({..<N} - V)" by simp
  from assms show "{..<N} - (V0 \<union> {v}) \<subset> {..<N} - V" by auto
qed

lemma get_all_sources_loop_returns:
  assumes call: "\<And>d V1. d < length h \<Longrightarrow> V \<union> {v} \<subseteq> V1 \<Longrightarrow>
      \<exists>S V'. get_all_sources n h d V1 = Inr (S, V')"
  shows "\<forall>d \<in> set ds. d < length h \<Longrightarrow> V \<subseteq> V0 \<Longrightarrow>
         \<exists>S V'. get_all_sources_loop n h v ds S0 V0 = Inr (S, V')"
proof (induction ds arbitrary: S0 V0)
  case Nil
  then show ?case by simp
next
  case (Cons d ds)
  from Cons.prems have "d < length h" "V \<union> {v} \<subseteq> V0 \<union> {v}" by auto
  from call [OF this] obtain Sd Vd where
    c: "get_all_sources n h d (V0 \<union> {v}) = Inr (Sd, Vd)" by blast
  from get_all_sources_grows [OF c] Cons.prems(2) have "V \<subseteq> Vd" by auto
  with Cons.IH [of Vd "S0 \<union> Sd"] Cons.prems(1) c show ?case by simp
qed

lemma get_all_sources_returns:
  assumes closed: "closed_heap h"
    and gd: "\<forall>a < length h. \<exists>r. get_dependencies k h a {} = Inr r"
  shows "v < length h \<Longrightarrow> k + card ({..<length h} - V) < n \<Longrightarrow>
         \<exists>S V'. get_all_sources n h v V = Inr (S, V')"
proof (induction n arbitrary: v V)
  case 0
  then show ?case by simp
next
  case (Suc n)
  show ?case
  proof (cases "v \<in> V")
    case True
    then show ?thesis by simp
  next
    case False
    from Suc.prems(1) obtain ob where ob: "deref h v = Some ob" by (simp add: deref_def)
    from gd Suc.prems(1) obtain deps vis where "get_dependencies k h v {} = Inr (deps, vis)"
      by fastforce
    from get_dependencies_more_frames [OF this, of "n - k"] Suc.prems(2)
    have g: "get_dependencies n h v {} = Inr (deps, vis)" by simp
    from get_dependencies_closed [OF closed g] have ds: "\<forall>d \<in> set deps. d < length h" .
    have "\<exists>S V'. get_all_sources n h d V1 = Inr (S, V')"
      if "d < length h" and "V \<union> {v} \<subseteq> V1" for d V1
    proof (rule Suc.IH [OF that(1)])
      from that(2) have "{..<length h} - V1 \<subseteq> {..<length h} - (V \<union> {v})" by auto
      then have "card ({..<length h} - V1) \<le> card ({..<length h} - (V \<union> {v}))"
        by (intro card_mono) auto
      also from unvisited_less [OF Suc.prems(1) False subset_refl]
      have "\<dots> < card ({..<length h} - V)" .
      finally show "k + card ({..<length h} - V1) < n" using Suc.prems(2) by simp
    qed
    from get_all_sources_loop_returns [of h V v n deps V "sources_set (metadata ob)", OF this ds]
    obtain S V' where
      "get_all_sources_loop n h v deps (sources_set (metadata ob)) V = Inr (S, V')"
      by blast
    with False ob g show ?thesis by simp
  qed
qed

lemma is_trusted_returns:
  assumes "closed_heap h" and "\<forall>a < length h. \<exists>r. get_dependencies k h a {} = Inr r"
    and "v < length h" and "k + length h < n"
  shows "is_trusted n h v = Inr (\<forall>source \<in> reachable_sources h v. source_is_trusted source)"
proof -
  have "card ({..<length h} - {}) = length h" by simp
  with assms(4) have "k + card ({..<length h} - {}) < n" by simp
  from get_all_sources_returns [OF assms(1,2,3) this] obtain S V' where
    g: "get_all_sources n h v {} = Inr (S, V')" by blast
  from get_all_sources_spec [OF g] g show ?thesis by (simp add: is_trusted_def)
qed

lemma dependency_relation_edges:
  assumes "\<forall>a < length h. \<exists>r. get_dependencies k h a {} = Inr r"
  shows "dependency_relation h \<subseteq> dependency_edges h"
proof
  fix x assume "x \<in> dependency_relation h"
  then obtain a d ob where x: "x = (a, d)" and ob: "deref h a = Some ob" and
      d: "d \<in> set (dependencies ob)"
    by (auto simp: dependency_relation_def)
  from ob have "a < length h" by (simp add: deref_def split: if_splits)
  with assms obtain deps vis where g: "get_dependencies k h a {} = Inr (deps, vis)" by fastforce
  from get_dependencies_keeps [OF g ob] d have "d \<in> set deps" by auto
  with g x show "x \<in> dependency_edges h" by (auto simp: dependency_edges_def)
qed

lemma spec_all_sources_reachable:
  assumes "\<forall>a < length h. \<exists>r. get_dependencies k h a {} = Inr r"
  shows "spec_all_sources h v \<subseteq> reachable_sources h v"
proof -
  from rtrancl_mono [OF dependency_relation_edges [OF assms]]
  show ?thesis by (auto simp: spec_all_sources_def reachable_sources_def)
qed


lemma get_dependencies_elements_returns:
  assumes "\<And>el V. el \<in> set els \<Longrightarrow> \<exists>r. get_dependencies n h el V = Inr r"
  shows "\<exists>r. get_dependencies_elements n h self els ds V = Inr r"
  using assms
proof (induction els arbitrary: ds V)
  case Nil
  then show ?case by simp
next
  case (Cons el els)
  from Cons.prems [of el "V \<union> {self}"] obtain nd V1 where
    1: "get_dependencies n h el (V \<union> {self}) = Inr (nd, V1)" by fastforce
  from Cons.IH [of "ds @ nd" V1] Cons.prems obtain r where
    "get_dependencies_elements n h self els (ds @ nd) V1 = Inr r" by fastforce
  with 1 show ?case by simp
qed

lemma get_dependencies_items_returns:
  assumes "\<And>k v V. (k, v) \<in> set its \<Longrightarrow> \<exists>r. get_dependencies n h k V = Inr r"
    and "\<And>k v V. (k, v) \<in> set its \<Longrightarrow> \<exists>r. get_dependencies n h v V = Inr r"
  shows "\<exists>r. get_dependencies_items n h its ds V = Inr r"
  using assms
proof (induction its arbitrary: ds V)
  case Nil
  then show ?case by simp
next
  case (Cons kv its)
  obtain k v where kv: "kv = (k, v)" by (cases kv)
  from Cons.prems(1) [of k v V] kv obtain kd kV where
    1: "get_dependencies n h k V = Inr (kd, kV)" by fastforce
  from Cons.prems(2) [of k v kV] kv obtain vd vV where
    2: "get_dependencies n h v kV = Inr (vd, vV)" by fastforce
  from Cons.IH [of "ds @ kd @ vd" vV] Cons.prems obtain r where
    "get_dependencies_items n h its (ds @ kd @ vd) vV = Inr r" by fastforce
  with 1 2 kv show ?case by simp
qed

lemma get_dependencies_returns:
  assumes "elements_before h"
  shows "a < length h \<Longrightarrow> \<exists>r. get_dependencies (Suc a) h a V = Inr r"
proof (induction a arbitrary: V rule: less_induct)
  case (less a)
  from less.prems have ob: "deref h a = Some (h ! a)" by (simp add: deref_def)
  have below: "\<exists>r. get_dependencies a h e V' = Inr r" if "e < a" for e V'
  proof -
    from that less.prems have "e < length h" by simp
    from less.IH [OF that this, of V'] obtain r where
      "get_dependencies (Suc e) h e V' = Inr r" ..
    from get_dependencies_more_frames [OF this, of "a - Suc e"] that show ?thesis by simp
  qed
  show ?case
  proof (cases "base_class_of (python_value (h ! a))")
    case CaMeLValue
    with ob show ?thesis by simp
  next
    case (CaMeLIterable els)
    with assms less.prems have "\<forall>e \<in> set els. e < a"
      by (fastforce simp: elements_before_def)
    with below have "\<exists>r. get_dependencies a h e V' = Inr r" if "e \<in> set els" for e V'
      using that by blast
    from get_dependencies_elements_returns [of els a h a "dependencies (h ! a)" V, OF this]
    obtain r where "get_dependencies_elements a h a els (dependencies (h ! a)) V = Inr r"
      by blast
    with ob CaMeLIterable show ?thesis by (cases r) simp
  next
    case (CaMeLMapping its)
    with assms less.prems have lt: "\<forall>(k, v) \<in> set its. k < a \<and> v < a"
      by (fastforce simp: elements_before_def)
    have "\<exists>r. get_dependencies_items a h its (dependencies (h ! a)) (V \<union> {a}) = Inr r"
    proof (rule get_dependencies_items_returns)
      fix k v V' assume "(k, v) \<in> set its"
      with lt below show "\<exists>r. get_dependencies a h k V' = Inr r" by blast
    next
      fix k v V' assume "(k, v) \<in> set its"
      with lt below show "\<exists>r. get_dependencies a h v V' = Inr r" by blast
    qed
    then obtain r where
      "get_dependencies_items a h its (dependencies (h ! a)) (V \<union> {a}) = Inr r" ..
    with ob CaMeLMapping show ?thesis by simp
  next
    case (CaMeLClassMethods ms)
    with assms less.prems have "\<forall>e \<in> set ms. e < a"
      by (fastforce simp: elements_before_def)
    with below have "\<exists>r. get_dependencies a h e V' = Inr r" if "e \<in> set ms" for e V'
      using that by blast
    from get_dependencies_elements_returns [of ms a h a "dependencies (h ! a)" V, OF this]
    obtain r where "get_dependencies_elements a h a ms (dependencies (h ! a)) V = Inr r"
      by blast
    with ob CaMeLClassMethods show ?thesis by simp
  qed
qed

lemma get_dependencies_returns_heap:
  assumes "elements_before h"
  shows "\<forall>a < length h. \<exists>r. get_dependencies (length h) h a {} = Inr r"
proof (intro allI impI)
  fix a assume a: "a < length h"
  from get_dependencies_returns [OF assms a, of "{}"] obtain r where
    r: "get_dependencies (Suc a) h a {} = Inr r" ..
  from a have eq: "Suc a + (length h - Suc a) = length h" by simp
  from get_dependencies_more_frames [OF r, of "length h - Suc a"]
  have "get_dependencies (length h) h a {} = Inr r" unfolding eq .
  then show "\<exists>r. get_dependencies (length h) h a {} = Inr r" ..
qed

lemma spec_all_sources_no_dependencies:
  assumes "deref h v = Some ob" and "dependencies ob = []"
  shows "spec_all_sources h v = sources_set (metadata ob)"
proof -
  have "w = v" if "(v, w) \<in> (dependency_relation h)\<^sup>*" for w
    using that assms by (cases rule: converse_rtranclE) (auto simp: dependency_relation_def)
  then have "(dependency_relation h)\<^sup>* `` {v} = {v}" by auto
  with assms(1) show ?thesis by (simp add: spec_all_sources_def own_sources_def)
qed

text \<open>
  C4, as amended. On a closed heap on whose values \<^verbatim>\<open>get_dependencies\<close> returns,
  \<open>is_trusted\<close> returns for every value of the heap, given a frame for each value of the
  heap on top of those that \<^verbatim>\<open>get_dependencies\<close> takes, and it returns \<open>True\<close> if and only
  if every source in the union of the sources over the value and the values that are
  reachable along what \<^verbatim>\<open>get_dependencies\<close> returns (\<open>reachable_sources\<close>) is trusted.
  This union includes the sources over the transitive dependencies along the dependency
  lists (\<open>spec_all_sources\<close>). \<^verbatim>\<open>get_dependencies\<close> returns on every value of a heap in
  which the containers are built after their elements. Wherever \<open>is_trusted\<close> returns,
  its result is the one stated. A source is trusted if and only if it is one of the
  four enumerated constants, or a \<open>Tool\<close> whose inner sources are not empty and are all
  among these constants.
\<close>

theorem is_trusted_iff:
  "(closed_heap h \<and> (\<forall>a < length h. \<exists>r. get_dependencies k h a {} = Inr r) \<and>
      v < length h \<and> k + length h < n \<longrightarrow>
        is_trusted n h v = Inr (\<forall>source \<in> reachable_sources h v. source_is_trusted source) \<and>
        spec_all_sources h v \<subseteq> reachable_sources h v) \<and>
   (elements_before h \<longrightarrow> (\<forall>a < length h. \<exists>r. get_dependencies (length h) h a {} = Inr r)) \<and>
   (is_trusted n h v = Inr b \<longrightarrow>
      (b \<longleftrightarrow> (\<forall>source \<in> reachable_sources h v. source_is_trusted source))) \<and>
   (source_is_trusted s \<longleftrightarrow>
      s \<in> Enum ` {User, Assistant, CaMeL, TrustedToolSource} \<or>
      (\<exists>name inner_sources. s = Tool name inner_sources \<and> inner_sources \<noteq> {} \<and>
         (\<forall>i \<in> inner_sources. i \<in> InnerEnum ` {User, Assistant, CaMeL, TrustedToolSource})))"
proof (intro conjI impI)
  assume a: "closed_heap h \<and> (\<forall>a < length h. \<exists>r. get_dependencies k h a {} = Inr r) \<and>
      v < length h \<and> k + length h < n"
  then show "is_trusted n h v =
      Inr (\<forall>source \<in> reachable_sources h v. source_is_trusted source)"
    by (intro is_trusted_returns [of h k v n]) simp_all
  from a show "spec_all_sources h v \<subseteq> reachable_sources h v"
    by (intro spec_all_sources_reachable [of h k]) simp
next
  assume "elements_before h"
  then show "\<forall>a < length h. \<exists>r. get_dependencies (length h) h a {} = Inr r"
    by (rule get_dependencies_returns_heap)
next
  assume a: "is_trusted n h v = Inr b"
  then obtain S V where g: "get_all_sources n h v {} = Inr (S, V)"
      and b: "b \<longleftrightarrow> (\<forall>source \<in> S. source_is_trusted source)"
    by (auto simp: is_trusted_def split: sum.splits)
  from get_all_sources_spec [OF g] b
  show "b \<longleftrightarrow> (\<forall>source \<in> reachable_sources h v. source_is_trusted source)" by simp
next
  show "source_is_trusted s \<longleftrightarrow>
      s \<in> Enum ` {User, Assistant, CaMeL, TrustedToolSource} \<or>
      (\<exists>name inner_sources. s = Tool name inner_sources \<and> inner_sources \<noteq> {} \<and>
         (\<forall>i \<in> inner_sources. i \<in> InnerEnum ` {User, Assistant, CaMeL, TrustedToolSource}))"
    by (cases s) (auto simp: TRUSTED_SET_def)
qed

lemma example_heap_is_trusted:
  "is_trusted 3 example_heap 2 = Inr True" "is_trusted 3 example_heap 5 = Inr False"
  by (simp_all add: is_trusted_def eval_nat_numeral example_heap_def deref_def default_def
      camel_def TRUSTED_SET_def)

lemma example_heap_closed: "closed_heap example_heap" "length example_heap = 6"
  by (simp_all add: closed_heap_def example_heap_def)

lemma example_heap_elements_before: "elements_before example_heap"
  unfolding elements_before_def
proof (intro allI impI)
  fix a assume "a < length example_heap"
  then have "a < 6" by (simp add: example_heap_def)
  then have "a = 0 \<or> a = 1 \<or> a = 2 \<or> a = 3 \<or> a = 4 \<or> a = 5" by arith
  then show "case base_class_of (python_value (example_heap ! a)) of
      CaMeLValue \<Rightarrow> True
    | CaMeLIterable els \<Rightarrow> \<forall>e \<in> set els. e < a
    | CaMeLMapping its \<Rightarrow> \<forall>(k, v) \<in> set its. k < a \<and> v < a
    | CaMeLClassMethods ms \<Rightarrow> \<forall>m \<in> set ms. m < a"
    by (elim disjE) (simp_all add: example_heap_def)
qed

theorem is_trusted_iff_witness:
  "closed_heap example_heap \<and> elements_before example_heap \<and>
   is_trusted 13 example_heap 2 = Inr True \<and>
   is_trusted 13 example_heap 5 = Inr False \<and>
   (\<exists>source \<in> reachable_sources example_heap 5. \<not> source_is_trusted source) \<and>
   \<not> (\<exists>source \<in> reachable_sources example_heap 2. \<not> source_is_trusted source) \<and>
   source_is_trusted (Tool ''get_iban'' {InnerEnum TrustedToolSource}) \<and>
   \<not> source_is_trusted (Tool ''read_email'' {InnerStr ''mallory''}) \<and>
   \<not> source_is_trusted (Tool ''len'' {})"
proof -
  note c = example_heap_closed(1) and l = example_heap_closed(2)
    and e = example_heap_elements_before
  from is_trusted_iff [where h = example_heap, THEN conjunct2, THEN conjunct1, THEN mp, OF e]
  have gd: "\<forall>a < length example_heap. \<exists>r. get_dependencies 6 example_heap a {} = Inr r"
    unfolding l .
  from is_trusted_iff [where h = example_heap and n = 3 and v = 5 and b = False,
      THEN conjunct2, THEN conjunct2, THEN conjunct1, THEN mp, OF example_heap_is_trusted(2)]
  have a: "\<exists>source \<in> reachable_sources example_heap 5. \<not> source_is_trusted source" by simp
  from is_trusted_iff [where h = example_heap and n = 3 and v = 2 and b = True,
      THEN conjunct2, THEN conjunct2, THEN conjunct1, THEN mp, OF example_heap_is_trusted(1)]
  have b: "\<not> (\<exists>source \<in> reachable_sources example_heap 2. \<not> source_is_trusted source)" by simp
  have h5: "closed_heap example_heap \<and>
      (\<forall>a < length example_heap. \<exists>r. get_dependencies 6 example_heap a {} = Inr r) \<and>
      5 < length example_heap \<and> 6 + length example_heap < 13"
    using c gd by (simp add: l)
  have h2: "closed_heap example_heap \<and>
      (\<forall>a < length example_heap. \<exists>r. get_dependencies 6 example_heap a {} = Inr r) \<and>
      2 < length example_heap \<and> 6 + length example_heap < 13"
    using c gd by (simp add: l)
  from is_trusted_iff [where h = example_heap and k = 6 and n = 13 and v = 5,
      THEN conjunct1, THEN mp, OF h5, THEN conjunct1] a
  have t5: "is_trusted 13 example_heap 5 = Inr False" by simp
  from is_trusted_iff [where h = example_heap and k = 6 and n = 13 and v = 2,
      THEN conjunct1, THEN mp, OF h2, THEN conjunct1] b
  have t2: "is_trusted 13 example_heap 2 = Inr True" by simp
  have s: "source_is_trusted (Tool ''get_iban'' {InnerEnum TrustedToolSource})"
      "\<not> source_is_trusted (Tool ''read_email'' {InnerStr ''mallory''})"
      "\<not> source_is_trusted (Tool ''len'' {})"
    by (simp_all add: TRUSTED_SET_def)
  from c e t2 t5 a b s show ?thesis by (intro conjI)
qed

lemma tainted_list_heap_deref:
  "deref tainted_list_heap 2 =
     Some \<lparr>python_value = CaMeLList [1], metadata = camel, dependencies = []\<rparr>"
  by (simp add: tainted_list_heap_def deref_def)

text \<open>
  C4, as stated, fails in two ways. The list of \<open>tainted_list_heap\<close> has no dependency;
  the only source over the list and its transitive dependencies is \<open>CaMeL\<close>, which is
  trusted, and \<open>is_trusted\<close> returns \<open>False\<close>: \<^verbatim>\<open>get_dependencies\<close> of a list returns the
  dependencies of its elements, and the element was computed from a message. For the
  two lists that contain each other the only source is \<open>CaMeL\<close> too, and \<open>is_trusted\<close>
  ends in \<^verbatim>\<open>RecursionError\<close> whatever the number of frames.
\<close>

theorem is_trusted_counterexample:
  "is_trusted 4 tainted_list_heap 2 = Inr False \<and>
   spec_all_sources tainted_list_heap 2 = {Enum CaMeL} \<and>
   source_is_trusted (Enum CaMeL) \<and>
   spec_all_sources cyclic_heap 2 = {Enum CaMeL} \<and>
   (\<forall>n. is_trusted n cyclic_heap 2 = Inl RecursionError)"
proof (intro conjI allI)
  show "is_trusted 4 tainted_list_heap 2 = Inr False"
    by (simp add: is_trusted_def eval_nat_numeral tainted_list_heap_def deref_def camel_def
        TRUSTED_SET_def)
  from spec_all_sources_no_dependencies [OF tainted_list_heap_deref]
  show "spec_all_sources tainted_list_heap 2 = {Enum CaMeL}" by (simp add: camel_def)
  show "source_is_trusted (Enum CaMeL)" by (simp add: TRUSTED_SET_def)
  from spec_all_sources_no_dependencies [OF cyclic_heap_deref(3)]
  show "spec_all_sources cyclic_heap 2 = {Enum CaMeL}" by (simp add: camel_def)
  fix n
  show "is_trusted n cyclic_heap 2 = Inl RecursionError"
    by (cases n) (simp_all add: is_trusted_def cyclic_heap_deref cyclic_heap_get_dependencies)
qed

section \<open>Properties of the operators\<close>

lemma CaMeLFloat_binary_result:
  "CaMeLFloat_binary py rf op self x other ov = Returns r \<Longrightarrow>
     metadata r = camel \<and> dependencies r = [self, other]"
  by (auto simp: CaMeLFloat_binary_def split: if_splits option.splits sum.splits)

lemma CaMeLInt_binary_result:
  "CaMeLInt_binary py rf op self x other ov = Returns r \<Longrightarrow>
     metadata r = camel \<and> dependencies r = [self, other]"
  by (auto simp: CaMeLInt_binary_def split: if_splits camel_value.splits sum.splits)

lemma sequence_binary_result:
  "sequence_binary mk same rf op self xs other ov = Returns r \<Longrightarrow>
     metadata r = camel \<and> dependencies r = [self, other]"
  by (auto simp: sequence_binary_def split: if_splits camel_value.splits sum.splits option.splits)

lemma CaMeLSet_binary_result:
  "CaMeLSet_binary py h rf op self xs other ov = Returns r \<Longrightarrow>
     metadata r = camel \<and> dependencies r = [self, other]"
  by (auto simp: CaMeLSet_binary_def split: if_splits camel_value.splits sum.splits)

lemma CaMeLDict_binary_result:
  "CaMeLDict_binary py h rf op self xs other ov = Returns r \<Longrightarrow>
     metadata r = camel \<and> dependencies r = [self, other]"
  by (auto simp: CaMeLDict_binary_def split: if_splits camel_value.splits sum.splits)

lemma binary_result:
  "binary py h rf op self other = Returns r \<Longrightarrow>
     metadata r = camel \<and> dependencies r = [self, other]"
  unfolding binary_def
  by (auto split: option.splits camel_value.splits
      dest: CaMeLFloat_binary_result CaMeLInt_binary_result sequence_binary_result
        CaMeLSet_binary_result CaMeLDict_binary_result)

lemma not_result:
  "not' py h self = Returns r \<Longrightarrow> metadata r = camel \<and> dependencies r = [self]"
  by (auto simp: not'_def split: option.splits if_splits)

lemma truth_result:
  "truth py h self = Returns r \<Longrightarrow> metadata r = camel \<and> dependencies r = [self]"
  by (auto simp: truth_def split: option.splits if_splits)

lemma unary_result:
  assumes "unary py h op self = Returns r" and "deref h self = Some ob"
  shows "((\<exists>x. python_value ob = CaMeLFloat x) \<and> metadata r = camel \<and> dependencies r = [self]) \<or>
         ((\<exists>x. python_value ob = CaMeLInt x) \<and> metadata r = metadata ob \<and>
            dependencies r = self # dependencies ob)"
  using assms
  by (auto simp: unary_def CaMeLInt_unary_def CaMeLFloat_unary_def
      split: camel_value.splits unaryop.splits sum.splits)

text \<open>
  C6, as amended. The result of every binary operator method of every class, of \<^verbatim>\<open>not_\<close> and
  of the unary operators of \<^verbatim>\<open>CaMeLFloat\<close> has the metadata \<^verbatim>\<open>Capabilities.camel()\<close>,
  whatever the metadata of the operands. The result of a unary operator of \<^verbatim>\<open>CaMeLInt\<close>
  has the metadata of its operand.
\<close>

theorem operator_metadata:
  "(binary py h rf op self other = Returns r \<longrightarrow> metadata r = camel) \<and>
   (not' py h self = Returns r \<longrightarrow> metadata r = camel) \<and>
   (unary py h uop self = Returns r \<and> deref h self = Some ob \<and>
      (\<exists>x. python_value ob = CaMeLFloat x) \<longrightarrow> metadata r = camel) \<and>
   (unary py h uop self = Returns r \<and> deref h self = Some ob \<and>
      (\<exists>x. python_value ob = CaMeLInt x) \<longrightarrow> metadata r = metadata ob)"
  using binary_result [of py h rf op self other r] not_result [of py h self r]
    unary_result [of py h uop self r ob]
  by auto

lemma example_heap_deref:
  "deref example_heap 0 = Some \<lparr>python_value = CaMeLInt (PyInt 7),
      metadata = \<lparr>sources_set = {Enum User}, readers_set = ReaderSet {''alice''}\<rparr>,
      dependencies = []\<rparr>"
  "deref example_heap (Suc 0) =
     Some \<lparr>python_value = CaMeLInt (PyInt 8), metadata = default, dependencies = []\<rparr>"
  by (simp_all add: example_heap_def deref_def)

theorem operator_metadata_witness:
  "binary example_python example_heap False Add 0 1 =
     Returns \<lparr>python_value = CaMeLInt (PyInt 15), metadata = camel, dependencies = [0, 1]\<rparr> \<and>
   metadata \<lparr>python_value = CaMeLInt (PyInt 15), metadata = camel, dependencies = [0, 1]\<rparr> = camel \<and>
   not' example_python example_heap 0 =
     Returns \<lparr>python_value = CaMeLFalse, metadata = camel, dependencies = [0]\<rparr> \<and>
   unary example_python example_heap Invert 0 =
     Returns \<lparr>python_value = CaMeLInt (PyInt (- 8)),
       metadata = \<lparr>sources_set = {Enum User}, readers_set = ReaderSet {''alice''}\<rparr>,
       dependencies = [0]\<rparr>"
proof -
  have b: "binary example_python example_heap False Add 0 1 =
     Returns \<lparr>python_value = CaMeLInt (PyInt 15), metadata = camel, dependencies = [0, 1]\<rparr>"
    by (simp add: binary_def example_heap_deref CaMeLInt_binary_def)
  have n: "not' example_python example_heap 0 =
     Returns \<lparr>python_value = CaMeLFalse, metadata = camel, dependencies = [0]\<rparr>"
    by (simp add: not'_def example_heap_deref)
  have u: "unary example_python example_heap Invert 0 =
     Returns \<lparr>python_value = CaMeLInt (PyInt (- 8)),
       metadata = \<lparr>sources_set = {Enum User}, readers_set = ReaderSet {''alice''}\<rparr>,
       dependencies = [0]\<rparr>"
    by (simp add: unary_def example_heap_deref CaMeLInt_unary_def)
  from operator_metadata [of example_python example_heap False Add 0 1
      "\<lparr>python_value = CaMeLInt (PyInt 15), metadata = camel, dependencies = [0, 1]\<rparr>"] b n u
  show ?thesis by simp
qed

text \<open>
  C6, as stated, fails for the negation of an integer whose metadata is
  \<^verbatim>\<open>Capabilities.default()\<close>: the result has that metadata, not \<^verbatim>\<open>Capabilities.camel()\<close>.
\<close>

theorem int_unary_metadata_counterexample:
  "unary example_python example_heap USub 1 =
     Returns \<lparr>python_value = CaMeLInt (PyInt (- 8)), metadata = default, dependencies = [1]\<rparr> \<and>
   metadata \<lparr>python_value = CaMeLInt (PyInt (- 8)), metadata = default, dependencies = [1]\<rparr>
     \<noteq> camel"
  by (simp add: unary_def example_heap_deref CaMeLInt_unary_def default_def camel_def)

section \<open>Properties of comparison and containment\<close>

text \<open>
  C8. The comparison of the lists \<^verbatim>\<open>[2, 3]\<close> and \<^verbatim>\<open>[2]\<close> returns \<open>True\<close>, with the two
  lists as dependencies, although their raw payloads differ: the loop over \<^verbatim>\<open>zip\<close> ends
  with the shorter list and the lengths are not compared.
\<close>

theorem list_eq_ignores_length:
  "eq 2 example_python literal_heap 3 4 = Inr (CaMeLBool True [3, 4]) \<and>
   raw 2 literal_heap 3 = Inr (PyList [PyNum (PyInt 2), PyNum (PyInt 3)]) \<and>
   raw 2 literal_heap 4 = Inr (PyList [PyNum (PyInt 2)])"
  by (simp add: eval_nat_numeral literal_heap_def deref_def payload_eq_def CaMeLBool_def)



text \<open>
  C7. When no element equals \<open>x\<close>, the result of the containment test depends on \<open>x\<close> and
  on what \<open>get_dependencies\<close> returns for the container, which are the dependencies of
  the container and of its elements, not the elements: for \<^verbatim>\<open>1 in [2, 3]\<close> and for
  \<^verbatim>\<open>'a' in 'bcd'\<close> over literals the only dependency is \<open>x\<close>. So the result of the test
  on a list that only \<open>alice\<close> may read is public once it is bound (as object 3).
\<close>

theorem contains_false_misses_elements:
  "contains 3 example_python literal_heap 3 0 = Inr (CaMeLBool False [0]) \<and>
   contains 3 example_python string_heap 3 5 = Inr (CaMeLBool False [5]) \<and>
   contains 3 example_python private_list_heap 2 0 = Inr (CaMeLBool False [0]) \<and>
   is_public 3 private_list_heap 2 = Inr False \<and>
   is_public 3 (private_list_heap @ [CaMeLBool False [0]]) 3 = Inr True"
proof (intro conjI)
  show "contains 3 example_python literal_heap 3 0 = Inr (CaMeLBool False [0])"
    by (simp add: contains_def CaMeLIterable_contains_def eval_nat_numeral literal_heap_def deref_def
        payload_eq_def CaMeLBool_def)
  show "contains 3 example_python string_heap 3 5 = Inr (CaMeLBool False [5])"
    by (simp add: contains_def CaMeLStr_contains_def eval_nat_numeral string_heap_def deref_def)
  show "contains 3 example_python private_list_heap 2 0 = Inr (CaMeLBool False [0])"
    by (simp add: contains_def CaMeLIterable_contains_def eval_nat_numeral
        private_list_heap_def deref_def payload_eq_def CaMeLBool_def)
  show "is_public 3 private_list_heap 2 = Inr False"
    by (simp add: is_public_def eval_nat_numeral private_list_heap_def deref_def)
  show "is_public 3 (private_list_heap @ [CaMeLBool False [0]]) 3 = Inr True"
    by (simp add: is_public_def eval_nat_numeral private_list_heap_def deref_def CaMeLBool_def
        camel_def default_def)
qed

section \<open>Dependencies of the results\<close>

lemma dependency_set_member:
  assumes "deref h v = Some ob" and "v \<in> set deps"
  shows "dependency_set h (dependencies ob) \<subseteq> dependency_set h deps"
proof
  fix w assume "w \<in> dependency_set h (dependencies ob)"
  then obtain d where d: "d \<in> set (dependencies ob)" "(d, w) \<in> (dependency_relation h)\<^sup>*"
    by (auto simp: dependency_set_def)
  from assms(1) d(1) have "(v, d) \<in> dependency_relation h"
    by (auto simp: dependency_relation_def)
  then have "(v, w) \<in> (dependency_relation h)\<^sup>*"
    using d(2) by (rule converse_rtrancl_into_rtrancl)
  with assms(2) show "w \<in> dependency_set h deps" by (auto simp: dependency_set_def)
qed

lemma dependency_set_mono:
  "set ds \<subseteq> set deps \<Longrightarrow> dependency_set h ds \<subseteq> dependency_set h deps"
  by (auto simp: dependency_set_def)

lemma eq_result:
  "eq n py h a b = Inr r \<Longrightarrow> metadata r = camel \<and> dependencies r = [a, b]"
  by (cases n)
    (auto simp: CaMeLBool_def split: option.splits base_class.splits sum.splits camel_value.splits)

lemma CaMeLIterable_contains_result:
  assumes "CaMeLIterable_contains n py h c els x = Inr r" and "deref h c = Some cb"
  shows "x \<in> set (dependencies r) \<and>
         (c \<in> set (dependencies r) \<or> set (dependencies cb) \<subseteq> set (dependencies r))"
proof (cases "first_equal n py h els x")
  case (Inl e)
  with assms show ?thesis by (simp add: CaMeLIterable_contains_def)
next
  case (Inr found)
  show ?thesis
  proof (cases found)
    case (Some inner)
    with Inr assms show ?thesis by (auto simp: CaMeLIterable_contains_def CaMeLBool_def)
  next
    case None
    with Inr assms obtain deps V where
        g: "get_dependencies n h c {} = Inr (deps, V)" and r: "r = CaMeLBool False (deps @ [x])"
      by (auto simp: CaMeLIterable_contains_def split: sum.splits)
    from get_dependencies_keeps [OF g assms(2)] r show ?thesis by (auto simp: CaMeLBool_def)
  qed
qed

lemma CaMeLStr_contains_result:
  assumes "CaMeLStr_contains n py h c cs x = Inr r" and "deref h c = Some cb"
  shows "(x \<in> set (dependencies r) \<or>
           (\<exists>xb. deref h x = Some xb \<and> set (dependencies xb) \<subseteq> set (dependencies r))) \<and>
         (c \<in> set (dependencies r) \<or> set (dependencies cb) \<subseteq> set (dependencies r))"
proof -
  from assms(1) obtain xb where xb: "deref h x = Some xb"
    by (auto simp: CaMeLStr_contains_def split: option.splits)
  from assms(1) xb obtain other_raw self_raw where
      raws: "(case python_value xb of
                 CaMeLStr os \<Rightarrow> raw_str h os []
               | CaMeLChar s \<Rightarrow> Inr s
               | _ \<Rightarrow> Inl TypeError) = Inr other_raw" "raw_str h cs [] = Inr self_raw"
    by (auto simp: CaMeLStr_contains_def split: sum.splits)
  show ?thesis
  proof (cases "py_str_in other_raw self_raw")
    case True
    with assms(1) xb raws obtain deps V where
        g: "get_dependencies n h x {} = Inr (deps, V)" and r: "r = CaMeLBool True (c # deps)"
      by (auto simp: CaMeLStr_contains_def split: sum.splits)
    from get_dependencies_keeps [OF g xb] r xb show ?thesis by (auto simp: CaMeLBool_def)
  next
    case False
    with assms(1) xb raws obtain deps V where
        g: "get_dependencies n h c {} = Inr (deps, V)" and r: "r = CaMeLBool False (deps @ [x])"
      by (auto simp: CaMeLStr_contains_def split: sum.splits)
    from get_dependencies_keeps [OF g assms(2)] r show ?thesis by (auto simp: CaMeLBool_def)
  qed
qed

lemma CaMeLMapping_contains_result:
  assumes "CaMeLMapping_contains n py h c its x = Inr r"
  shows "x \<in> set (dependencies r) \<and> c \<in> set (dependencies r)"
  using assms
  by (auto simp: CaMeLMapping_contains_def CaMeLBool_def split: sum.splits option.splits)

lemma contains_result:
  assumes "contains n py h c x = Inr r" and "deref h c = Some cb"
  shows "(x \<in> set (dependencies r) \<or>
           (\<exists>xb. deref h x = Some xb \<and> set (dependencies xb) \<subseteq> set (dependencies r))) \<and>
         (c \<in> set (dependencies r) \<or> set (dependencies cb) \<subseteq> set (dependencies r))"
proof (cases "python_value cb")
  case (CaMeLStr cs)
  with assms CaMeLStr_contains_result [of n py h c cs x r cb] show ?thesis
    by (simp add: contains_def)
next
  case (CaMeLTuple els)
  with assms CaMeLIterable_contains_result [of n py h c els x r cb] show ?thesis
    by (simp add: contains_def)
next
  case (CaMeLList els)
  with assms CaMeLIterable_contains_result [of n py h c els x r cb] show ?thesis
    by (simp add: contains_def)
next
  case (CaMeLSet els)
  with assms CaMeLIterable_contains_result [of n py h c els x r cb] show ?thesis
    by (simp add: contains_def)
next
  case (CaMeLDict its)
  with assms CaMeLMapping_contains_result [of n py h c its x r] show ?thesis
    by (simp add: contains_def)
qed (use assms in \<open>simp_all add: contains_def\<close>)

lemma index_result:
  assumes "index h s i = Inr r"
  shows "s \<in> set (dependencies r) \<and> i \<in> set (dependencies r)"
  using assms
  by (auto simp: index_def new_with_dependencies_def split: option.splits sum.splits)

lemma len_result: "len h s = Inr r \<Longrightarrow> s \<in> set (dependencies r)"
  by (auto simp: len_def split: option.splits)

lemma iterate_result: "iterate h s i = Inr r \<Longrightarrow> s \<in> set (dependencies r)"
  by (auto simp: iterate_def split: option.splits base_class.splits)

lemma keeps_dependencies_member:
  "deref h v = Some vb \<Longrightarrow> v \<in> set (dependencies r) \<Longrightarrow> keeps_dependencies h vb r"
  unfolding keeps_dependencies_def by (rule dependency_set_member)

lemma keeps_dependencies_subset:
  "set (dependencies vb) \<subseteq> set (dependencies r) \<Longrightarrow> keeps_dependencies h vb r"
  unfolding keeps_dependencies_def by (rule dependency_set_mono)

text \<open>
  C5, as amended. For a value \<open>v\<close> of the heap and the result \<open>r\<close> of one of the operations
  \<open>new_with_dependencies\<close>, \<open>new_with_metadata\<close>, \<open>new_with_python_value\<close>, a unary or
  binary operator, \<open>not_\<close>, \<open>truth\<close>, \<open>eq\<close>, \<open>contains\<close>, \<open>index\<close>, \<open>len\<close> and \<open>iterate\<close>
  applied to \<open>v\<close>, as the receiver or as the argument, every value that \<open>v\<close> transitively
  depends on is one that \<open>r\<close> transitively depends on.
\<close>

theorem dependencies_monotone:
  assumes "deref h v = Some vb"
  shows "keeps_dependencies h vb (new_with_dependencies vb ds) \<and>
         keeps_dependencies h vb (new_with_metadata vb m) \<and>
         keeps_dependencies h vb (new_with_python_value vb p) \<and>
         (unary py h uop v = Returns r \<longrightarrow> keeps_dependencies h vb r) \<and>
         (not' py h v = Returns r \<longrightarrow> keeps_dependencies h vb r) \<and>
         (truth py h v = Returns r \<longrightarrow> keeps_dependencies h vb r) \<and>
         (binary py h rf op v w = Returns r \<longrightarrow> keeps_dependencies h vb r) \<and>
         (binary py h rf op w v = Returns r \<longrightarrow> keeps_dependencies h vb r) \<and>
         (eq n py h v w = Inr r \<longrightarrow> keeps_dependencies h vb r) \<and>
         (eq n py h w v = Inr r \<longrightarrow> keeps_dependencies h vb r) \<and>
         (contains n py h v w = Inr r \<longrightarrow> keeps_dependencies h vb r) \<and>
         (contains n py h w v = Inr r \<longrightarrow> keeps_dependencies h vb r) \<and>
         (index h v w = Inr r \<longrightarrow> keeps_dependencies h vb r) \<and>
         (index h w v = Inr r \<longrightarrow> keeps_dependencies h vb r) \<and>
         (len h v = Inr r \<longrightarrow> keeps_dependencies h vb r) \<and>
         (iterate h v i = Inr r \<longrightarrow> keeps_dependencies h vb r)"
proof -
  note mem = keeps_dependencies_member [OF assms]
  have 1: "keeps_dependencies h vb (new_with_dependencies vb ds)"
    by (rule keeps_dependencies_subset) (simp add: new_with_dependencies_def)
  have 2: "keeps_dependencies h vb (new_with_metadata vb m)"
    by (rule keeps_dependencies_subset) (simp add: new_with_metadata_def)
  have 3: "keeps_dependencies h vb (new_with_python_value vb p)"
    by (rule keeps_dependencies_subset) (simp add: new_with_python_value_def)
  have 4: "keeps_dependencies h vb r" if "unary py h uop v = Returns r"
    using unary_result [OF that assms] by (auto intro: mem)
  have 5: "keeps_dependencies h vb r" if "not' py h v = Returns r"
    using not_result [OF that] by (auto intro: mem)
  have 6: "keeps_dependencies h vb r" if "truth py h v = Returns r"
    using truth_result [OF that] by (auto intro: mem)
  have 7: "keeps_dependencies h vb r" if "binary py h rf op v w = Returns r"
    using binary_result [OF that] by (auto intro: mem)
  have 8: "keeps_dependencies h vb r" if "binary py h rf op w v = Returns r"
    using binary_result [OF that] by (auto intro: mem)
  have 9: "keeps_dependencies h vb r" if "eq n py h v w = Inr r"
    using eq_result [OF that] by (auto intro: mem)
  have 10: "keeps_dependencies h vb r" if "eq n py h w v = Inr r"
    using eq_result [OF that] by (auto intro: mem)
  have 11: "keeps_dependencies h vb r" if "contains n py h v w = Inr r"
    using contains_result [OF that assms] by (auto intro: mem keeps_dependencies_subset)
  have 12: "keeps_dependencies h vb r" if c: "contains n py h w v = Inr r"
  proof -
    from c obtain wb where "deref h w = Some wb"
      by (auto simp: contains_def split: option.splits)
    from contains_result [OF c this] assms show ?thesis
      by (auto intro: mem keeps_dependencies_subset)
  qed
  have 13: "keeps_dependencies h vb r" if "index h v w = Inr r"
    using index_result [OF that] by (auto intro: mem)
  have 14: "keeps_dependencies h vb r" if "index h w v = Inr r"
    using index_result [OF that] by (auto intro: mem)
  have 15: "keeps_dependencies h vb r" if "len h v = Inr r"
    using len_result [OF that] by (auto intro: mem)
  have 16: "keeps_dependencies h vb r" if "iterate h v i = Inr r"
    using iterate_result [OF that] by (auto intro: mem)
  from 1 2 3 4 5 6 7 8 9 10 11 12 13 14 15 16 show ?thesis by blast
qed

lemma example_heap_sum:
  "deref example_heap 2 =
     Some \<lparr>python_value = CaMeLInt (PyInt 15), metadata = camel, dependencies = [0, 1]\<rparr>"
  by (simp add: example_heap_def deref_def)

theorem dependencies_monotone_witness:
  "binary example_python example_heap False Mult 2 1 =
     Returns \<lparr>python_value = CaMeLInt (PyInt 120), metadata = camel, dependencies = [2, 1]\<rparr> \<and>
   keeps_dependencies example_heap
     \<lparr>python_value = CaMeLInt (PyInt 15), metadata = camel, dependencies = [0, 1]\<rparr>
     \<lparr>python_value = CaMeLInt (PyInt 120), metadata = camel, dependencies = [2, 1]\<rparr> \<and>
   keeps_dependencies example_heap
     \<lparr>python_value = CaMeLInt (PyInt 15), metadata = camel, dependencies = [0, 1]\<rparr>
     (new_with_dependencies
       \<lparr>python_value = CaMeLInt (PyInt 15), metadata = camel, dependencies = [0, 1]\<rparr> [3])"
proof -
  have b: "binary example_python example_heap False Mult 2 1 =
     Returns \<lparr>python_value = CaMeLInt (PyInt 120), metadata = camel, dependencies = [2, 1]\<rparr>"
    by (simp add: binary_def example_heap_def deref_def CaMeLInt_binary_def)
  from dependencies_monotone [OF example_heap_sum, where ds = "[3]" and py = example_python
      and rf = False and op = Mult and w = 1
      and r = "\<lparr>python_value = CaMeLInt (PyInt 120), metadata = camel, dependencies = [2, 1]\<rparr>"] b
  show ?thesis by simp
qed

text \<open>
  C5, as stated, fails for \<open>next\<close>: the iterator depends on the list it was made for, and
  the element that \<open>next\<close> returns is the element of the list as it is, which depends
  on nothing.
\<close>

theorem next_drops_dependencies_counterexample:
  "next iterator_heap 2 =
     Inr (iterator_heap
            [2 := \<lparr>python_value = CaMeLIterator 0 [], metadata = camel, dependencies = [1]\<rparr>], 0) \<and>
   deref iterator_heap 2 =
     Some \<lparr>python_value = CaMeLIterator 0 [0], metadata = camel, dependencies = [1]\<rparr> \<and>
   deref iterator_heap 0 =
     Some \<lparr>python_value = CaMeLInt (PyInt 8), metadata = default, dependencies = []\<rparr> \<and>
   \<not> keeps_dependencies iterator_heap
       \<lparr>python_value = CaMeLIterator 0 [0], metadata = camel, dependencies = [1]\<rparr>
       \<lparr>python_value = CaMeLInt (PyInt 8), metadata = default, dependencies = []\<rparr>"
proof -
  have "1 \<in> dependency_set iterator_heap [1]" by (simp add: dependency_set_def)
  moreover have "dependency_set iterator_heap [] = {}" by (simp add: dependency_set_def)
  ultimately show ?thesis
    by (auto simp: next_def iterator_heap_def deref_def keeps_dependencies_def)
qed

section \<open>Properties of calls\<close>

lemma raw_elements_frames:
  assumes "\<And>a r. raw n h a = Inr r \<Longrightarrow> raw m h a = Inr r"
  shows "raw_elements n h els = Inr rs \<Longrightarrow> raw_elements m h els = Inr rs"
proof (induction els arbitrary: rs)
  case Nil
  then show ?case by simp
next
  case (Cons el els)
  from Cons.prems obtain r rs' where
      1: "raw n h el = Inr r" and 2: "raw_elements n h els = Inr rs'" and 3: "rs = r # rs'"
    by (auto split: sum.splits)
  from assms [OF 1] Cons.IH [OF 2] 3 show ?case by simp
qed

lemma raw_items_frames:
  assumes "\<And>a r. raw n h a = Inr r \<Longrightarrow> raw m h a = Inr r"
  shows "raw_items n h its = Inr rs \<Longrightarrow> raw_items m h its = Inr rs"
proof (induction its arbitrary: rs)
  case Nil
  then show ?case by simp
next
  case (Cons kv its)
  obtain k v where kv: "kv = (k, v)" by (cases kv)
  from Cons.prems kv obtain rk rv rs' where
      1: "raw n h k = Inr rk" and 2: "raw n h v = Inr rv" and
      3: "raw_items n h its = Inr rs'" and 4: "rs = (rk, rv) # rs'"
    by (auto split: sum.splits)
  from assms [OF 1] assms [OF 2] Cons.IH [OF 3] 4 kv show ?case by simp
qed

lemma raw_Suc_frame: "raw n h a = Inr r \<Longrightarrow> raw (Suc n) h a = Inr r"
proof (induction n arbitrary: a r)
  case 0
  then show ?case by simp
next
  case (Suc n)
  have el: "raw_elements (Suc n) h els = Inr rs" if "raw_elements n h els = Inr rs" for els rs
    using Suc.IH that by (rule raw_elements_frames)
  have it: "raw_items (Suc n) h its = Inr rs" if "raw_items n h its = Inr rs" for its rs
    using Suc.IH that by (rule raw_items_frames)
  from Suc.prems obtain ob where ob: "deref h a = Some ob"
    by (auto split: option.splits)
  show ?case
  proof (cases "python_value ob")
    case (CaMeLTuple els)
    with Suc.prems ob obtain rs where 1: "raw_elements n h els = Inr rs" and 2: "r = PyTuple rs"
      by (auto split: sum.splits)
    from el [OF 1] 2 ob CaMeLTuple show ?thesis by (simp add: raw.simps(2) [of "Suc n"])
  next
    case (CaMeLList els)
    with Suc.prems ob obtain rs where 1: "raw_elements n h els = Inr rs" and 2: "r = PyList rs"
      by (auto split: sum.splits)
    from el [OF 1] 2 ob CaMeLList show ?thesis by (simp add: raw.simps(2) [of "Suc n"])
  next
    case (CaMeLSet els)
    with Suc.prems ob obtain rs where 1: "raw_elements n h els = Inr rs" and 2: "r = PySet rs"
      by (auto split: sum.splits)
    from el [OF 1] 2 ob CaMeLSet show ?thesis by (simp add: raw.simps(2) [of "Suc n"])
  next
    case (CaMeLDict its)
    with Suc.prems ob obtain rs where 1: "raw_items n h its = Inr rs" and 2: "r = PyDict rs"
      by (auto split: sum.splits)
    from it [OF 1] 2 ob CaMeLDict show ?thesis by (simp add: raw.simps(2) [of "Suc n"])
  qed (use Suc.prems ob in \<open>simp_all add: raw.simps(2) [of "Suc n"]\<close>)
qed

lemma raw_more_frames: "raw n h a = Inr r \<Longrightarrow> n \<le> m \<Longrightarrow> raw m h a = Inr r"
proof (induction m)
  case 0
  then show ?case by simp
next
  case (Suc m)
  show ?case
  proof (cases "n = Suc m")
    case True
    with Suc.prems show ?thesis by simp
  next
    case False
    with Suc.prems have "n \<le> m" by simp
    from raw_Suc_frame [OF Suc.IH [OF Suc.prems(1) this]] show ?thesis .
  qed
qed


lemma value_from_raw_errors:
  "value_from_raw h v m deps = Inl e \<Longrightarrow> e = OutsideModel"
  "value_from_raw_elements h vs = Inl e \<Longrightarrow> e = OutsideModel"
  "value_from_raw_items h its m = Inl e \<Longrightarrow> e = OutsideModel"
  by (induction h v m deps and h vs and h its m
      rule: value_from_raw_value_from_raw_elements_value_from_raw_items.induct)
     (auto split: sum.splits prod.splits)

lemma raw_elements_each:
  "raw_elements m h els = Inr rs \<Longrightarrow> v \<in> set els \<Longrightarrow> \<exists>r. raw m h v = Inr r"
  by (induction els arbitrary: rs) (auto split: sum.splits)

lemma dict_set_values: "snd ` set (dict_set d k v) \<subseteq> insert v (snd ` set d)"
  by (induction d) (auto split: if_splits simp: image_iff, force+)

lemma enumerate_args_values: "snd ` set (enumerate_args i els d) \<subseteq> set els \<union> snd ` set d"
proof (induction els arbitrary: i d)
  case Nil
  then show ?case by simp
next
  case (Cons el els)
  from Cons.IH [of "Suc i" "dict_set d (str_of_nat i) el"] dict_set_values [of d "str_of_nat i" el]
  show ?case by auto
qed

lemma keyword_args_returns:
  assumes "m \<le> n"
  shows "raw_items m h its = Inr rs \<Longrightarrow> keyword_items rs = Some kw \<Longrightarrow>
         \<forall>v \<in> snd ` set d. \<exists>r. raw n h v = Inr r \<Longrightarrow>
         \<exists>d'. keyword_args n h its d = Inr d' \<and> (\<forall>v \<in> snd ` set d'. \<exists>r. raw n h v = Inr r)"
proof (induction its arbitrary: rs kw d)
  case Nil
  then show ?case by simp
next
  case (Cons kv its)
  obtain k v where kv: "kv = (k, v)" by (cases kv)
  from Cons.prems(1) kv obtain rk rv rs' where
      1: "raw m h k = Inr rk" and 2: "raw m h v = Inr rv" and
      3: "raw_items m h its = Inr rs'" and 4: "rs = (rk, rv) # rs'"
    by (auto split: sum.splits)
  from Cons.prems(2) 4 obtain s kw' where
      5: "rk = PyStr s" and 6: "keyword_items rs' = Some kw'"
    by (cases rk) auto
  from raw_more_frames [OF 1 assms] 5 have k: "keyword n h k = Inr s"
    by (simp add: keyword_def)
  from raw_more_frames [OF 2 assms] have v: "\<exists>r. raw n h v = Inr r" by blast
  have "\<forall>x \<in> snd ` set (dict_set d s v). \<exists>r. raw n h x = Inr r"
    using dict_set_values [of d s v] v Cons.prems(3) by blast
  from Cons.IH [OF 3 6 this] k kv show ?case by simp
qed

lemma raw_values_returns:
  "\<forall>v \<in> snd ` set d. \<exists>r. raw n h v = Inr r \<Longrightarrow> \<exists>rs. raw_values n h d = Inr rs"
  by (induction d) (auto split: sum.splits)

lemma raw_tuple:
  assumes "raw n h a = Inr (PyTuple pos)"
  obtains m ob els where "n = Suc m" and "deref h a = Some ob" and
    "python_value ob = CaMeLTuple els" and "raw_elements m h els = Inr pos"
proof (cases n)
  case 0
  with assms show ?thesis by simp
next
  case (Suc m)
  with assms obtain ob where ob: "deref h a = Some ob" by (auto split: option.splits)
  with assms Suc obtain els where "python_value ob = CaMeLTuple els" "raw_elements m h els = Inr pos"
    by (cases "python_value ob") (auto split: sum.splits)
  with Suc ob that show ?thesis by blast
qed

lemma raw_dict:
  assumes "raw n h a = Inr (PyDict rs)"
  obtains m ob its where "n = Suc m" and "deref h a = Some ob" and
    "python_value ob = CaMeLDict its" and "raw_items m h its = Inr rs"
proof (cases n)
  case 0
  with assms show ?thesis by simp
next
  case (Suc m)
  with assms obtain ob where ob: "deref h a = Some ob" by (auto split: option.splits)
  with assms Suc obtain its where "python_value ob = CaMeLDict its" "raw_items m h its = Inr rs"
    by (cases "python_value ob") (auto split: sum.splits)
  with Suc ob that show ?thesis by blast
qed

lemma make_args_by_keyword_returns:
  assumes "raw n h args = Inr (PyTuple pos)" and "raw n h kwargs = Inr (PyDict rs)"
    and "keyword_items rs = Some kw"
  shows "\<exists>abk. make_args_by_keyword n h args kwargs = Inr abk"
proof -
  from assms(1) obtain m ab els where
      n: "n = Suc m" and ab: "deref h args = Some ab" "python_value ab = CaMeLTuple els" and
      els: "raw_elements m h els = Inr pos"
    by (rule raw_tuple)
  from assms(2) obtain m' kb its where
      n': "n = Suc m'" and kb: "deref h kwargs = Some kb" "python_value kb = CaMeLDict its" and
      its': "raw_items m' h its = Inr rs"
    by (rule raw_dict)
  from n n' its' have its: "raw_items m h its = Inr rs" by simp
  have mn: "m \<le> n" using n by simp
  have "\<forall>v \<in> snd ` set (enumerate_args 0 els []). \<exists>r. raw n h v = Inr r"
    using enumerate_args_values [of 0 els "[]"] raw_elements_each [OF els]
      raw_more_frames [OF _ mn] by fastforce
  from keyword_args_returns [OF mn its assms(3) this] obtain d where
      d: "keyword_args n h its (enumerate_args 0 els []) = Inr d" and
      v: "\<forall>v \<in> snd ` set d. \<exists>r. raw n h v = Inr r"
    by blast
  from raw_values_returns [OF v] obtain abk where "raw_values n h d = Inr abk" ..
  with ab kb d show ?thesis
    by (simp add: make_args_by_keyword_def make_args_by_keyword_preserve_values_def)
qed


lemma CaMeLCallable_call_no_side_effect:
  assumes "raw n h args = Inr (PyTuple pos)" and "raw n h kwargs = Inr (PyDict its)"
    and "keyword_items its = Some kw"
    and "call_object py f pos kw = (Inr out, pos', kw')"
  shows "CaMeLCallable_call n py h self name f args kwargs =
          (if py_ne py (PyTuple pos) (PyTuple pos') \<or> py_ne py (PyDict its) (repack kw')
           then Inl FunctionCallWithSideEffectError
           else
            (case wrap_output h self name out args kwargs of
               Inl e \<Rightarrow> Inl e
             | Inr (h', wrapped_output) \<Rightarrow>
                (case make_args_by_keyword n h args kwargs of
                   Inl e \<Rightarrow> Inl e
                 | Inr args_by_keyword \<Rightarrow> Inr (Value h' wrapped_output, args_by_keyword))))"
  using assms by (simp add: CaMeLCallable_call_def unpack_def)

lemma wrap_output_error: "wrap_output h self name v args kwargs = Inl e \<Longrightarrow> e = OutsideModel"
  unfolding wrap_output_def by (rule value_from_raw_errors(1))

text \<open>
  C2, as amended. For every call of a function or a built-in, the two classes that
  inherit \<^verbatim>\<open>CaMeLCallable.call\<close>, in which the Python callable returns: the raw positional
  and keyword arguments are captured before the callable runs, and the call raises
  \<^verbatim>\<open>FunctionCallWithSideEffectError\<close> if and only if the raw arguments computed after the
  call differ from the captured ones, as the callable has left them. When they do not
  differ, the arguments by keyword are computed and the call returns them with the
  wrapped output, or raises what the wrapping raises. So after every call that returns,
  the raw arguments before and after are equal.
\<close>

theorem call_side_effect_check:
  assumes "deref h self = Some ob"
    and "python_value ob = CaMeLFunction name f \<or> python_value ob = CaMeLBuiltin name f"
    and "raw n h args = Inr (PyTuple pos)" and "raw n h kwargs = Inr (PyDict its)"
    and "keyword_items its = Some kw"
    and "call_object py f pos kw = (Inr out, pos', kw')"
  shows "(call n py h self args kwargs = Inl FunctionCallWithSideEffectError \<longleftrightarrow>
            py_ne py (PyTuple pos) (PyTuple pos') \<or> py_ne py (PyDict its) (repack kw')) \<and>
         (\<not> py_ne py (PyTuple pos) (PyTuple pos') \<and> \<not> py_ne py (PyDict its) (repack kw') \<longrightarrow>
            (\<exists>args_by_keyword.
               make_args_by_keyword n h args kwargs = Inr args_by_keyword \<and>
               call n py h self args kwargs =
                 (case wrap_output h self name out args kwargs of
                    Inl e \<Rightarrow> Inl e
                  | Inr (h', wrapped_output) \<Rightarrow> Inr (Value h' wrapped_output, args_by_keyword)))) \<and>
         (\<forall>res. call n py h self args kwargs = Inr res \<longrightarrow>
            py_eq py (PyTuple pos) (PyTuple pos') \<and> py_eq py (PyDict its) (repack kw'))"
proof -
  let ?differ = "py_ne py (PyTuple pos) (PyTuple pos') \<or> py_ne py (PyDict its) (repack kw')"
  from assms(1,2) have c: "call n py h self args kwargs =
      CaMeLCallable_call n py h self name f args kwargs"
    by (auto simp: call_def)
  note r = CaMeLCallable_call_no_side_effect [OF assms(3-6), of self name]
  from make_args_by_keyword_returns [OF assms(3-5)] obtain abk where
      abk: "make_args_by_keyword n h args kwargs = Inr abk" ..
  have 1: "call n py h self args kwargs = Inl FunctionCallWithSideEffectError \<longleftrightarrow> ?differ"
  proof (cases ?differ)
    case True
    with c r show ?thesis by simp
  next
    case False
    with c r abk wrap_output_error [of h self name out args kwargs] show ?thesis
      by (auto split: sum.splits)
  qed
  have 2: "\<exists>args_by_keyword.
      make_args_by_keyword n h args kwargs = Inr args_by_keyword \<and>
      call n py h self args kwargs =
        (case wrap_output h self name out args kwargs of
           Inl e \<Rightarrow> Inl e
         | Inr (h', wrapped_output) \<Rightarrow> Inr (Value h' wrapped_output, args_by_keyword))"
    if "\<not> ?differ"
    using that c r abk by (auto split: sum.splits)
  have 3: "py_eq py (PyTuple pos) (PyTuple pos') \<and> py_eq py (PyDict its) (repack kw')"
    if "call n py h self args kwargs = Inr res" for res
  proof (rule ccontr)
    assume "\<not> ?thesis"
    then have ?differ by (auto simp: py_ne_def)
    with 1 that show False by simp
  qed
  from 1 2 3 show ?thesis by blast
qed


lemma str_of_nat_0: "str_of_nat 0 = ''0''"
  by code_simp

lemma call_heap_raw:
  "raw 3 call_heap 2 = Inr (PyTuple [PyList [PyNum (PyInt 1)]])"
  "raw 3 call_heap 3 = Inr (PyDict [])"
  by (simp_all add: call_heap_def deref_def eval_nat_numeral)

lemma call_heap_args_by_keyword:
  "make_args_by_keyword 3 call_heap 2 3 = Inr [(''0'', PyList [PyNum (PyInt 1)])]"
  by (simp add: make_args_by_keyword_def make_args_by_keyword_preserve_values_def
      call_heap_def deref_def eval_nat_numeral str_of_nat_0)


lemma call_heap_callables:
  "deref call_heap 4 =
     Some \<lparr>python_value = CaMeLBuiltin ''len'' 0, metadata = camel, dependencies = []\<rparr>"
  "deref call_heap 5 =
     Some \<lparr>python_value = CaMeLBuiltin ''clear'' 1, metadata = camel, dependencies = []\<rparr>"
  "deref call_heap 6 =
     Some \<lparr>python_value = CaMeLClass ''Drain'' 2 [], metadata = camel, dependencies = []\<rparr>"
  by (simp_all add: call_heap_def deref_def)

lemma example_python_calls:
  "call_object example_python 0 [PyList [PyNum (PyInt 1)]] [] =
     (Inr (PyNum (PyInt 1)), [PyList [PyNum (PyInt 1)]], [])"
  "call_object example_python 1 [PyList [PyNum (PyInt 1)]] [] = (Inr PyNone, [PyList []], [])"
  "call_object example_python 2 [PyList [PyNum (PyInt 1)]] [] = (Inr (PyObject 7), [PyList []], [])"
  by (simp_all add: example_python_def)

lemma call_heap_wrap_output:
  "wrap_output call_heap 4 ''len'' (PyNum (PyInt 1)) 2 3 =
     Inr (call_heap @
            [\<lparr>python_value = CaMeLInt (PyInt 1),
              metadata = \<lparr>sources_set = {Tool ''len'' {}}, readers_set = Public\<rparr>,
              dependencies = [4, 2, 3]\<rparr>], 7)"
  by (simp add: wrap_output_def alloc_def) (simp add: call_heap_def)

theorem call_side_effect_check_witness:
  "call 3 example_python call_heap 4 2 3 =
     Inr (Value (call_heap @
                   [\<lparr>python_value = CaMeLInt (PyInt 1),
                     metadata = \<lparr>sources_set = {Tool ''len'' {}}, readers_set = Public\<rparr>,
                     dependencies = [4, 2, 3]\<rparr>]) 7,
          [(''0'', PyList [PyNum (PyInt 1)])]) \<and>
   py_eq example_python (PyTuple [PyList [PyNum (PyInt 1)]]) (PyTuple [PyList [PyNum (PyInt 1)]]) \<and>
   py_ne example_python (PyTuple [PyList [PyNum (PyInt 1)]]) (PyTuple [PyList []]) \<and>
   call 3 example_python call_heap 5 2 3 = Inl FunctionCallWithSideEffectError"
proof -
  have k: "keyword_items [] = Some []" by simp
  have same: "py_eq example_python (PyTuple [PyList [PyNum (PyInt 1)]])
      (PyTuple [PyList [PyNum (PyInt 1)]])"
    by simp
  have differ: "py_ne example_python (PyTuple [PyList [PyNum (PyInt 1)]]) (PyTuple [PyList []])"
    by (simp add: py_ne_def)
  have empty: "\<not> py_ne example_python (PyDict []) (repack [])"
    by (simp add: py_ne_def repack_def)
  from call_side_effect_check [OF call_heap_callables(1) _ call_heap_raw k example_python_calls(1),
      of "''len''"]
    same empty call_heap_wrap_output call_heap_args_by_keyword
  have 1: "call 3 example_python call_heap 4 2 3 =
     Inr (Value (call_heap @
                   [\<lparr>python_value = CaMeLInt (PyInt 1),
                     metadata = \<lparr>sources_set = {Tool ''len'' {}}, readers_set = Public\<rparr>,
                     dependencies = [4, 2, 3]\<rparr>]) 7,
          [(''0'', PyList [PyNum (PyInt 1)])])"
    by (simp add: py_ne_def)
  from call_side_effect_check [OF call_heap_callables(2) _ call_heap_raw k example_python_calls(2),
      of "''clear''"] differ
  have 2: "call 3 example_python call_heap 5 2 3 = Inl FunctionCallWithSideEffectError"
    by simp
  from 1 same differ 2 show ?thesis by simp
qed

text \<open>
  C2, as stated, fails for the call of a class: \<^verbatim>\<open>CaMeLClass.call\<close> overrides
  \<^verbatim>\<open>CaMeLCallable.call\<close> and compares nothing. The constructor of the class \<^verbatim>\<open>Drain\<close> empties
  the list that it is given; the raw arguments differ after the call, and the call returns
  the new instance.
\<close>

theorem class_call_skips_check_counterexample:
  "raw 3 call_heap 2 = Inr (PyTuple [PyList [PyNum (PyInt 1)]]) \<and>
   call_object example_python 2 [PyList [PyNum (PyInt 1)]] [] =
     (Inr (PyObject 7), [PyList []], []) \<and>
   py_ne example_python (PyTuple [PyList [PyNum (PyInt 1)]]) (PyTuple [PyList []]) \<and>
   call 3 example_python call_heap 6 2 3 =
     Inr (Instance \<lparr>instance_value = PyObject 7, instance_class = 6, instance_metadata = camel,
                     instance_dependencies = [6]\<rparr>,
          [(''0'', PyList [PyNum (PyInt 1)])])"
  by (simp add: call_def CaMeLClass_call_def unpack_def call_heap_callables call_heap_raw
      example_python_calls call_heap_args_by_keyword py_ne_def)

end
